theory Spec2Isabelle
  imports Main
begin

section \<open>File Consolidator: the scan, the selection and the merge strategies\<close>

text \<open>
  A shallow embedding of the scanning, selection and merging code of the File
  Consolidator (\<^verbatim>\<open>UIManager.py\<close>, \<^verbatim>\<open>main.py\<close>, \<^verbatim>\<open>FileProcessor.py\<close>).
  Python strings are \<^typ>\<open>string\<close>; an exception is a value of \<open>pyexn\<close>; a function
  that may raise returns the exception (if any) together with the state it leaves
  behind, since every mutation made before the \<^verbatim>\<open>raise\<close> persists.
\<close>

subsection \<open>Strings and paths\<close>

definition NL :: string where
  "NL = [CHR 0x0A]"

text \<open>\<^verbatim>\<open>str.lower()\<close>, on the ASCII letters.\<close>

definition lower_char :: "char \<Rightarrow> char" where
  "lower_char c =
     (let n = (of_char c :: nat) in if 65 \<le> n \<and> n \<le> 90 then char_of (n + 32) else c)"

definition lower :: "string \<Rightarrow> string" where
  "lower s = map lower_char s"

definition endswith :: "string \<Rightarrow> string \<Rightarrow> bool" where
  "endswith s suf \<longleftrightarrow> length suf \<le> length s \<and> drop (length s - length suf) s = suf"

text \<open>\<^verbatim>\<open>os.path.basename\<close> (posixpath): what follows the last \<^verbatim>\<open>/\<close>.\<close>

definition basename :: "string \<Rightarrow> string" where
  "basename p = rev (takeWhile (\<lambda>c. c \<noteq> CHR ''/'') (rev p))"

text \<open>
  \<^verbatim>\<open>os.path.join\<close> (posixpath): a component that starts with \<^verbatim>\<open>/\<close> replaces what
  came before; a separator is added unless the path so far is empty or ends with one.
\<close>

definition join2 :: "string \<Rightarrow> string \<Rightarrow> string" where
  "join2 path b =
     (if b \<noteq> [] \<and> hd b = CHR ''/'' then b
      else if path = [] \<or> last path = CHR ''/'' then path @ b
      else path @ ''/'' @ b)"

definition join :: "string \<Rightarrow> string list \<Rightarrow> string" where
  "join a ps = foldl join2 a ps"

text \<open>\<^verbatim>\<open>str(n)\<close> for an integer.\<close>

definition digit :: "nat \<Rightarrow> char" where
  "digit d = char_of (48 + d)"

function str_nat :: "nat \<Rightarrow> string" where
  "str_nat n = (if n < 10 then [digit n] else str_nat (n div 10) @ [digit (n mod 10)])"
  by pat_completeness auto
termination
  by (relation "measure id") auto

declare str_nat.simps [simp del]

definition str_int :: "int \<Rightarrow> string" where
  "str_int i = (if i < 0 then ''-'' @ str_nat (nat (- i)) else str_nat (nat i))"

subsection \<open>Exceptions, the worker's state and its environment\<close>

text \<open>An exception: its class and its message (\<^verbatim>\<open>str(e)\<close>).\<close>

datatype pyexn = PyExn (exn_class: string) (exn_msg: string)

text \<open>The messages the worker puts on \<^verbatim>\<open>app.processing_queue\<close>.\<close>

datatype queue_msg =
    Status string
  | Progress nat
  | Max_progress nat
  | Done "string list" string

text \<open>
  Documents are kept abstract: a PDF is its list of pages, a Word document the list
  of its body elements, a presentation its list of slides.
\<close>

datatype element = Heading string nat | Page_break | Body string

datatype shape =
    Text_frame string string
  | Picture string "pyexn + string"
  | Other_shape string

datatype slide = Slide (slide_layout: string) (shapes: "shape list")

datatype fdata =
    Text_file string
  | Pdf_file "string list"
  | Docx_file "element list"
  | Pptx_file "slide list"

text \<open>
  What the worker thread changes: the application's error list and queue, the input
  files it has opened for reading (in order), the files it has written and removed, the
  dialogs it has raised, and how many times it has read \<^verbatim>\<open>app.cancel_requested\<close>
  so far.
\<close>

record app =
  include_headers :: bool
  processing_errors :: "string list"
  processing_queue :: "queue_msg list"
  opened :: "string list"
  written :: "string \<rightharpoonup> fdata"
  removed :: "string list"
  dialogs :: "(string \<times> string) list"
  flag_reads :: nat

text \<open>
  What the worker only reads. \<open>cancel_requested env k\<close> is the value of the flag
  \<^verbatim>\<open>app.cancel_requested\<close> at the worker's \<open>k\<close>-th read of it (the flag belongs to
  the control thread). The readers give what opening and reading an input file
  returns or raises; \<open>open_w\<close> is the exception, if any, of opening a file for writing;
  \<open>create_word\<close>, \<open>word_to_pdf\<close> and their PowerPoint twins are the exceptions, if any,
  of starting the Office application and of converting one file with it.
  Input files are read through these functions: a run whose output path is also one of
  its inputs is outside the model.
\<close>

record env =
  cancel_requested :: "nat \<Rightarrow> bool"
  OFFICE_INSTALLED :: bool
  read_text :: "string \<Rightarrow> pyexn + string"
  read_pdf :: "string \<Rightarrow> pyexn + string list"
  read_docx :: "string \<Rightarrow> pyexn + element list"
  read_pptx :: "string \<Rightarrow> pyexn + slide list"
  create_word :: "pyexn option"
  word_to_pdf :: "string \<Rightarrow> pyexn option"
  create_powerpoint :: "pyexn option"
  powerpoint_to_pdf :: "string \<Rightarrow> pyexn option"
  open_w :: "string \<Rightarrow> pyexn option"
  path_exists :: "string \<Rightarrow> bool"
  remove_file :: "string \<Rightarrow> pyexn option"

definition get_cancel :: "env \<Rightarrow> app \<Rightarrow> bool \<times> app" where
  "get_cancel ev s = (cancel_requested ev (flag_reads s), s\<lparr>flag_reads := Suc (flag_reads s)\<rparr>)"

definition put :: "queue_msg \<Rightarrow> app \<Rightarrow> app" where
  "put m s = s\<lparr>processing_queue := processing_queue s @ [m]\<rparr>"

definition append_error :: "string \<Rightarrow> app \<Rightarrow> app" where
  "append_error e s = s\<lparr>processing_errors := processing_errors s @ [e]\<rparr>"

definition open_r :: "string \<Rightarrow> app \<Rightarrow> app" where
  "open_r path s = s\<lparr>opened := opened s @ [path]\<rparr>"

subsection \<open>\<^verbatim>\<open>FileProcessor.merge_as_text\<close>\<close>

text \<open>The text written so far to a text output file.\<close>

definition text_written :: "app \<Rightarrow> string \<Rightarrow> string" where
  "text_written s f = (case written s f of Some (Text_file t) \<Rightarrow> t | _ \<Rightarrow> [])"

definition outfile_write :: "string \<Rightarrow> string \<Rightarrow> app \<Rightarrow> app" where
  "outfile_write f t s = s\<lparr>written := (written s)(f \<mapsto> Text_file (text_written s f @ t))\<rparr>"

definition separator :: string where
  "separator = replicate 20 (CHR ''='')"

definition header :: "string \<Rightarrow> string" where
  "header path = NL @ separator @ NL @ ''# File: '' @ path @ NL @ separator @ NL @ NL"

definition read_error_msg :: "string \<Rightarrow> pyexn \<Rightarrow> string" where
  "read_error_msg path e = ''Error reading file '' @ path @ '': '' @ exn_msg e"

text \<open>One iteration of the loop, after the cancellation check (lines 67 to 77).\<close>

definition text_step :: "env \<Rightarrow> nat \<Rightarrow> string \<Rightarrow> string \<Rightarrow> app \<Rightarrow> app" where
  "text_step ev i path f s =
     (let s1 = put (Status (''Processing: '' @ basename path)) s;
          s2 = put (Progress (i + 1)) s1;
          s3 = (if include_headers s2 then outfile_write f (header path) s2 else s2);
          s4 = open_r path s3
      in case read_text ev path of
           Inr content \<Rightarrow> outfile_write f (content @ NL) s4
         | Inl e \<Rightarrow>
             append_error (read_error_msg path e)
               (outfile_write f (''# '' @ read_error_msg path e @ NL) s4))"

text \<open>
  The \<^verbatim>\<open>for i, path in enumerate(file_paths)\<close> loop: the flag is read first, and the
  function returns at once when it is set.
\<close>

fun text_loop :: "env \<Rightarrow> nat \<Rightarrow> string list \<Rightarrow> string \<Rightarrow> app \<Rightarrow> app" where
  "text_loop ev i [] f s = s"
| "text_loop ev i (path # rest) f s =
     (case get_cancel ev s of
        (True, s') \<Rightarrow> s'
      | (False, s') \<Rightarrow> text_loop ev (Suc i) rest f (text_step ev i path f s'))"

definition merge_as_text :: "env \<Rightarrow> string list \<Rightarrow> string \<Rightarrow> app \<Rightarrow> pyexn option \<times> app" where
  "merge_as_text ev file_paths output_filename s =
     (case open_w ev output_filename of
        Some e \<Rightarrow> (Some e, s)
      | None \<Rightarrow>
          (None, text_loop ev 0 file_paths output_filename
                   (s\<lparr>written := (written s)(output_filename \<mapsto> Text_file [])\<rparr>)))"

text \<open>
  What the loop leaves behind once it has worked through the files \<open>done\<close>: two queue
  messages, one piece of output and at most one error for each of them.
\<close>

definition text_piece :: "env \<Rightarrow> bool \<Rightarrow> string \<Rightarrow> string" where
  "text_piece ev hdr path =
     (if hdr then header path else []) @
     (case read_text ev path of
        Inr content \<Rightarrow> content @ NL
      | Inl e \<Rightarrow> ''# '' @ read_error_msg path e @ NL)"

definition text_errors :: "env \<Rightarrow> string \<Rightarrow> string list" where
  "text_errors ev path =
     (case read_text ev path of Inr content \<Rightarrow> [] | Inl e \<Rightarrow> [read_error_msg path e])"

fun text_msgs :: "nat \<Rightarrow> string list \<Rightarrow> queue_msg list" where
  "text_msgs i [] = []"
| "text_msgs i (path # rest) =
     Status (''Processing: '' @ basename path) # Progress (i + 1) # text_msgs (Suc i) rest"

definition text_result :: "env \<Rightarrow> nat \<Rightarrow> string list \<Rightarrow> string \<Rightarrow> nat \<Rightarrow> app \<Rightarrow> app" where
  "text_result ev i done f r s =
     s\<lparr>processing_queue := processing_queue s @ text_msgs i done,
       processing_errors := processing_errors s @ concat (map (text_errors ev) done),
       opened := opened s @ done,
       written := (written s)(f \<mapsto>
          Text_file (text_written s f @ concat (map (text_piece ev (include_headers s)) done))),
       flag_reads := r\<rparr>"

subsection \<open>\<^verbatim>\<open>merge_as_pdf\<close>\<close>

text \<open>
  \<^verbatim>\<open>os.path.splitext\<close>: the extension starts at the last dot of the last component,
  unless only dots come before it there.
\<close>

definition splitext :: "string \<Rightarrow> string \<times> string" where
  "splitext p =
     (let name = basename p;
          ext_rev = takeWhile (\<lambda>c. c \<noteq> CHR ''.'') (rev name);
          stem = take (length name - length ext_rev - 1) name
      in if length ext_rev < length name \<and> (\<exists>c \<in> set stem. c \<noteq> CHR ''.'')
         then (take (length p - length ext_rev - 1) p, drop (length p - length ext_rev - 1) p)
         else (p, []))"

definition is_word :: "string \<Rightarrow> bool" where
  "is_word path \<longleftrightarrow> endswith (lower path) ''.docx'' \<or> endswith (lower path) ''.doc''"

definition is_powerpoint :: "string \<Rightarrow> bool" where
  "is_powerpoint path \<longleftrightarrow> endswith (lower path) ''.pptx'' \<or> endswith (lower path) ''.ppt''"

text \<open>The local variables of \<^verbatim>\<open>merge_as_pdf\<close>.\<close>

record pdf_job =
  writer :: "string list"
  temp_pdfs :: "string list"
  word :: bool
  powerpoint :: bool

text \<open>Lines 118 to 123: the pages of \<open>pdf_path\<close> are appended to the writer.\<close>

definition pdf_append ::
  "env \<Rightarrow> string \<Rightarrow> string \<Rightarrow> pdf_job \<Rightarrow> app \<Rightarrow> pyexn option \<times> pdf_job \<times> app" where
  "pdf_append ev path pdf_path j s =
     (let s1 = open_r pdf_path (put (Status (''Appending: '' @ basename path)) s)
      in case read_pdf ev pdf_path of
           Inl e \<Rightarrow> (Some e, j, s1)
         | Inr pages \<Rightarrow> (None, j\<lparr>writer := writer j @ pages\<rparr>, s1))"

text \<open>
  Lines 96 to 113. \<open>pdf_path\<close> is assigned before the document is opened, so after a
  failed conversion the code still goes on to open \<open>pdf_path\<close>; only a failure to
  start the application leaves it \<^verbatim>\<open>None\<close>.
\<close>

definition pdf_convert ::
  "env \<Rightarrow> nat \<Rightarrow> string \<Rightarrow> bool \<Rightarrow> pdf_job \<Rightarrow> app \<Rightarrow> pyexn option \<times> pdf_job \<times> app" where
  "pdf_convert ev i path is_ppt j s =
     (let started = (if is_ppt then powerpoint j else word j);
          label = (if is_ppt then ''Failed to convert PPTX '' else ''Failed to convert DOCX '');
          failed = (\<lambda>e. append_error (label @ basename path @ '': '' @ exn_msg e) s)
      in case (if started then None else if is_ppt then create_powerpoint ev else create_word ev) of
           Some e \<Rightarrow> (None, j, failed e)
         | None \<Rightarrow>
             (let j1 = (if is_ppt then j\<lparr>powerpoint := True\<rparr> else j\<lparr>word := True\<rparr>);
                  pdf_path = fst (splitext path) @ ''_'' @ str_nat i @ ''.pdf''
              in case (if is_ppt then powerpoint_to_pdf ev path else word_to_pdf ev path) of
                   Some e \<Rightarrow> pdf_append ev path pdf_path j1 (failed e)
                 | None \<Rightarrow>
                     pdf_append ev path pdf_path (j1\<lparr>temp_pdfs := temp_pdfs j1 @ [pdf_path]\<rparr>) s))"

definition pdf_step ::
  "env \<Rightarrow> nat \<Rightarrow> string \<Rightarrow> pdf_job \<Rightarrow> app \<Rightarrow> pyexn option \<times> pdf_job \<times> app" where
  "pdf_step ev i path j s =
     (let s1 = put (Status (''Converting: '' @ basename path)) s;
          s2 = put (Progress (i + 1)) s1
      in if endswith (lower path) ''.pdf'' then pdf_append ev path path j s2
         else if is_word path \<and> OFFICE_INSTALLED ev then pdf_convert ev i path False j s2
         else if is_powerpoint path \<and> OFFICE_INSTALLED ev then pdf_convert ev i path True j s2
         else (None, j,
               append_error (''Skipped unsupported file for PDF merge: '' @ basename path) s2))"

fun pdf_loop ::
  "env \<Rightarrow> nat \<Rightarrow> string list \<Rightarrow> pdf_job \<Rightarrow> app \<Rightarrow> pyexn option \<times> pdf_job \<times> app" where
  "pdf_loop ev i [] j s = (None, j, s)"
| "pdf_loop ev i (path # rest) j s =
     (case get_cancel ev s of
        (True, s') \<Rightarrow> (None, j, s')
      | (False, s') \<Rightarrow>
          (case pdf_step ev i path j s' of
             (Some e, j', s'') \<Rightarrow> (Some e, j', s'')
           | (None, j', s'') \<Rightarrow> pdf_loop ev (Suc i) rest j' s''))"

text \<open>Lines 125 to 128: the final write, unless cancellation is seen.\<close>

definition pdf_save :: "env \<Rightarrow> string \<Rightarrow> pdf_job \<Rightarrow> app \<Rightarrow> pyexn option \<times> app" where
  "pdf_save ev output_filename j s =
     (case get_cancel ev s of
        (True, s') \<Rightarrow> (None, s')
      | (False, s') \<Rightarrow>
          (let s1 = put (Status ''Saving final PDF...'') s'
           in case open_w ev output_filename of
                Some e \<Rightarrow> (Some e, s1)
              | None \<Rightarrow>
                  (None, s1\<lparr>written := (written s1)(output_filename \<mapsto> Pdf_file (writer j))\<rparr>)))"

text \<open>The \<^verbatim>\<open>finally\<close> block: the temporary files are removed.\<close>

fun remove_temps :: "env \<Rightarrow> string list \<Rightarrow> app \<Rightarrow> app" where
  "remove_temps ev [] s = s"
| "remove_temps ev (t # ts) s =
     remove_temps ev ts
       (if path_exists ev t
        then (case remove_file ev t of
                None \<Rightarrow> s\<lparr>removed := removed s @ [t]\<rparr>
              | Some e \<Rightarrow>
                  append_error (''Could not remove temp file '' @ t @ '': '' @ exn_msg e) s)
        else s)"

definition office_warning :: "string \<times> string" where
  "office_warning =
     (''Office Not Found'',
      ''MS Office is required for converting Word/PowerPoint files to PDF. These files will be skipped.'')"

definition merge_as_pdf :: "env \<Rightarrow> string list \<Rightarrow> string \<Rightarrow> app \<Rightarrow> pyexn option \<times> app" where
  "merge_as_pdf ev file_paths output_filename s =
     (let s0 = (if \<not> OFFICE_INSTALLED ev \<and> list_ex (\<lambda>p. is_word p \<or> is_powerpoint p) file_paths
                then s\<lparr>dialogs := dialogs s @ [office_warning]\<rparr> else s);
          j0 = \<lparr>writer = [], temp_pdfs = [], word = False, powerpoint = False\<rparr>;
          critical = (\<lambda>e. append_error (''A critical error occurred during PDF merge: '' @ exn_msg e))
      in case pdf_loop ev 0 file_paths j0 s0 of
           (Some e, j, s1) \<Rightarrow> (None, remove_temps ev (temp_pdfs j) (critical e s1))
         | (None, j, s1) \<Rightarrow>
             (case pdf_save ev output_filename j s1 of
                (Some e, s2) \<Rightarrow> (None, remove_temps ev (temp_pdfs j) (critical e s2))
              | (None, s2) \<Rightarrow> (None, remove_temps ev (temp_pdfs j) s2)))"

subsection \<open>\<^verbatim>\<open>merge_as_docx\<close> and \<^verbatim>\<open>merge_as_pptx\<close>\<close>

definition docx_step :: "env \<Rightarrow> nat \<Rightarrow> string \<Rightarrow> element list \<Rightarrow> app \<Rightarrow> element list \<times> app" where
  "docx_step ev i path master s =
     (let s1 = put (Status (''Processing: '' @ basename path)) s;
          s2 = put (Progress (i + 1)) s1
      in if endswith (lower path) ''.docx''
         then
           (let m1 = (if 0 < i \<or> \<not> include_headers s2 then master @ [Page_break] else master);
                m2 = (if include_headers s2
                      then m1 @ [Heading (''Content from: '' @ basename path) 1] else m1);
                s3 = open_r path s2
            in case read_docx ev path of
                 Inr body \<Rightarrow> (m2 @ body, s3)
               | Inl e \<Rightarrow>
                   (m2, append_error
                          (''Could not process DOCX file '' @ basename path @ '': '' @ exn_msg e) s3))
         else (master, append_error (''Skipped non-DOCX file: '' @ basename path) s2))"

text \<open>
  The loop gives back the document built and whether it ended by the \<^verbatim>\<open>return\<close> of
  line 149.
\<close>

fun docx_loop ::
  "env \<Rightarrow> nat \<Rightarrow> string list \<Rightarrow> element list \<Rightarrow> app \<Rightarrow> bool \<times> element list \<times> app" where
  "docx_loop ev i [] master s = (False, master, s)"
| "docx_loop ev i (path # rest) master s =
     (case get_cancel ev s of
        (True, s') \<Rightarrow> (True, master, s')
      | (False, s') \<Rightarrow>
          (case docx_step ev i path master s' of
             (master', s'') \<Rightarrow> docx_loop ev (Suc i) rest master' s''))"

definition save_document :: "env \<Rightarrow> string \<Rightarrow> fdata \<Rightarrow> app \<Rightarrow> pyexn option \<times> app" where
  "save_document ev output_filename d s =
     (case get_cancel ev s of
        (True, s') \<Rightarrow> (None, s')
      | (False, s') \<Rightarrow>
          (case open_w ev output_filename of
             Some e \<Rightarrow> (Some e, s')
           | None \<Rightarrow> (None, s'\<lparr>written := (written s')(output_filename \<mapsto> d)\<rparr>)))"

definition merge_as_docx :: "env \<Rightarrow> string list \<Rightarrow> string \<Rightarrow> app \<Rightarrow> pyexn option \<times> app" where
  "merge_as_docx ev file_paths output_filename s =
     (let master_doc = (if file_paths \<noteq> [] \<and> include_headers s
                        then [Heading ''Consolidated Document'' 0] else [])
      in case docx_loop ev 0 file_paths master_doc s of
           (True, master, s1) \<Rightarrow> (None, s1)
         | (False, master, s1) \<Rightarrow> save_document ev output_filename (Docx_file master) s1)"

text \<open>
  The simplified copy of one slide (lines 184 to 195): text frames and pictures only; a
  picture whose image cannot be read leaves an error.
\<close>

fun copy_shapes :: "string \<Rightarrow> shape list \<Rightarrow> shape list \<Rightarrow> app \<Rightarrow> shape list \<times> app" where
  "copy_shapes path [] new s = (new, s)"
| "copy_shapes path (Text_frame g t # rest) new s =
     copy_shapes path rest (new @ [Text_frame g t]) s"
| "copy_shapes path (Picture g (Inr blob) # rest) new s =
     copy_shapes path rest (new @ [Picture g (Inr blob)]) s"
| "copy_shapes path (Picture g (Inl e) # rest) new s =
     copy_shapes path rest new
       (append_error (''Could not copy image from '' @ basename path @ '': '' @ exn_msg e) s)"
| "copy_shapes path (Other_shape g # rest) new s = copy_shapes path rest new s"

fun copy_slides :: "string \<Rightarrow> slide list \<Rightarrow> slide list \<Rightarrow> app \<Rightarrow> slide list \<times> app" where
  "copy_slides path [] master s = (master, s)"
| "copy_slides path (sl # rest) master s =
     (case copy_shapes path (shapes sl) [] s of
        (new, s') \<Rightarrow> copy_slides path rest (master @ [Slide (slide_layout sl) new]) s')"

definition pptx_step :: "env \<Rightarrow> nat \<Rightarrow> string \<Rightarrow> slide list \<Rightarrow> app \<Rightarrow> slide list \<times> app" where
  "pptx_step ev i path master s =
     (let s1 = put (Status (''Processing: '' @ basename path)) s;
          s2 = put (Progress (i + 1)) s1
      in if endswith (lower path) ''.pptx''
         then (case read_pptx ev path of
                 Inr slides \<Rightarrow> copy_slides path slides master (open_r path s2)
               | Inl e \<Rightarrow>
                   (master, append_error
                              (''Could not process '' @ basename path @ '': '' @ exn_msg e)
                              (open_r path s2)))
         else (master, append_error (''Skipped non-PPTX file: '' @ basename path) s2))"

fun pptx_loop ::
  "env \<Rightarrow> nat \<Rightarrow> string list \<Rightarrow> slide list \<Rightarrow> app \<Rightarrow> bool \<times> slide list \<times> app" where
  "pptx_loop ev i [] master s = (False, master, s)"
| "pptx_loop ev i (path # rest) master s =
     (case get_cancel ev s of
        (True, s') \<Rightarrow> (True, master, s')
      | (False, s') \<Rightarrow>
          (case pptx_step ev i path master s' of
             (master', s'') \<Rightarrow> pptx_loop ev (Suc i) rest master' s''))"

definition merge_as_pptx :: "env \<Rightarrow> string list \<Rightarrow> string \<Rightarrow> app \<Rightarrow> pyexn option \<times> app" where
  "merge_as_pptx ev file_paths output_filename s =
     (case pptx_loop ev 0 file_paths [] s of
        (True, master, s1) \<Rightarrow> (None, s1)
      | (False, master, s1) \<Rightarrow> save_document ev output_filename (Pptx_file master) s1)"

subsection \<open>\<^verbatim>\<open>FileProcessor.merge_documents\<close> and \<^verbatim>\<open>process_files\<close>\<close>

text \<open>
  The attributes a \<^verbatim>\<open>FileProcessor\<close> object has. The class body ends at line 77:
  \<^verbatim>\<open>def merge_as_pdf\<close> (line 79) starts in column 0, so it is a function of the module,
  and \<^verbatim>\<open>merge_as_docx\<close> and \<^verbatim>\<open>merge_as_pptx\<close> (lines 142 and 171, indented by four)
  are local functions of its body. Of the four strategies only \<^verbatim>\<open>merge_as_text\<close> is a
  method of the class.
\<close>

type_synonym strategy = "env \<Rightarrow> string list \<Rightarrow> string \<Rightarrow> app \<Rightarrow> pyexn option \<times> app"

definition FileProcessor_attr :: "string \<Rightarrow> strategy option" where
  "FileProcessor_attr name = (if name = ''merge_as_text'' then Some merge_as_text else None)"

definition quote :: string where
  "quote = [CHR 0x27]"

definition AttributeError :: "string \<Rightarrow> pyexn" where
  "AttributeError name =
     PyExn ''AttributeError''
       (quote @ ''FileProcessor'' @ quote @ '' object has no attribute '' @ quote @ name @ quote)"

definition getattr :: "string \<Rightarrow> pyexn + strategy" where
  "getattr name =
     (case FileProcessor_attr name of Some m \<Rightarrow> Inr m | None \<Rightarrow> Inl (AttributeError name))"

text \<open>Lines 55 to 59: the closing status message.\<close>

definition closing_status :: "env \<Rightarrow> string list \<Rightarrow> app \<Rightarrow> app" where
  "closing_status ev file_paths s =
     (case get_cancel ev s of
        (True, s') \<Rightarrow> put (Status ''Operation cancelled.'') s'
      | (False, s') \<Rightarrow>
          put (Status (''Finished. Consolidated '' @
                 str_int (int (length file_paths) - int (length (processing_errors s'))) @
                 '' files.'')) s')"

text \<open>
  The dictionary literal of lines 44 to 49 looks the four attributes up in order, before
  anything else is done; a missing one raises \<^verbatim>\<open>AttributeError\<close>.
\<close>

definition merge_documents ::
  "env \<Rightarrow> string list \<Rightarrow> string \<Rightarrow> string \<Rightarrow> app \<Rightarrow> pyexn option \<times> app" where
  "merge_documents ev file_paths output_filename output_format s =
     (case getattr ''merge_as_text'' of Inl e \<Rightarrow> (Some e, s) | Inr txt \<Rightarrow>
      case getattr ''merge_as_pdf'' of Inl e \<Rightarrow> (Some e, s) | Inr pdf \<Rightarrow>
      case getattr ''merge_as_docx'' of Inl e \<Rightarrow> (Some e, s) | Inr docx \<Rightarrow>
      case getattr ''merge_as_pptx'' of Inl e \<Rightarrow> (Some e, s) | Inr pptx \<Rightarrow>
        (let merge_function_map =
               map_of [(''TXT'', txt), (''PDF'', pdf), (''DOCX'', docx), (''PPTX'', pptx)]
         in case (case merge_function_map output_format of
                    Some merge_function \<Rightarrow> merge_function ev file_paths output_filename s
                  | None \<Rightarrow> (None, s)) of
              (Some e, s') \<Rightarrow> (Some e, s')
            | (None, s') \<Rightarrow> (None, closing_status ev file_paths s')))"

definition process_files :: "env \<Rightarrow> string list \<Rightarrow> string \<Rightarrow> string \<Rightarrow> app \<Rightarrow> app" where
  "process_files ev file_paths output_filename output_format s =
     (let s1 = put (Max_progress (length file_paths)) s;
          s2 = (case merge_documents ev file_paths output_filename output_format s1 of
                  (Some e, s') \<Rightarrow> append_error (''A critical error occurred: '' @ exn_msg e) s'
                | (None, s') \<Rightarrow> s')
      in put (Done file_paths output_filename) s2)"

subsection \<open>Sample inputs\<close>

definition no_such_file :: pyexn where
  "no_such_file = PyExn ''FileNotFoundError'' ''[Errno 2] No such file or directory''"

definition sample_env :: env where
  "sample_env =
     \<lparr>cancel_requested = (\<lambda>k. False),
      OFFICE_INSTALLED = False,
      read_text = (\<lambda>p. if p = ''/r/a.py'' then Inr ''x = 1''
                        else if p = ''/r/b.py'' then Inr ''y = 2''
                        else Inl no_such_file),
      read_pdf = (\<lambda>p. if p = ''/r/a.pdf'' then Inr [''page 1'', ''page 2'']
                       else Inl no_such_file),
      read_docx = (\<lambda>p. if p = ''/r/b.docx'' then Inr [Body ''paragraph''] else Inl no_such_file),
      read_pptx = (\<lambda>p. if p = ''/r/c.pptx'' then Inr [Slide ''title'' [Text_frame ''box'' ''hello'']]
                        else Inl no_such_file),
      create_word = None,
      word_to_pdf = (\<lambda>p. None),
      create_powerpoint = None,
      powerpoint_to_pdf = (\<lambda>p. None),
      open_w = (\<lambda>p. None),
      path_exists = (\<lambda>p. False),
      remove_file = (\<lambda>p. None)\<rparr>"

definition sample_app :: app where
  "sample_app =
     \<lparr>include_headers = False, processing_errors = [], processing_queue = [],
      opened = [], written = Map.empty, removed = [], dialogs = [], flag_reads = 0\<rparr>"

definition cancel_env :: "nat \<Rightarrow> env" where
  "cancel_env K = sample_env\<lparr>cancel_requested := (\<lambda>k. K \<le> k)\<rparr>"

subsection \<open>The tree widgets\<close>

text \<open>
  A \<^verbatim>\<open>ttk.Treeview\<close> is a forest of items. An item has an identifier (generated by the
  widget from a counter; \<open>0\<close> stands for \<^verbatim>\<open>""\<close>, the invisible root), its text, its
  three column values (status, size, type) and its tags. Every item of the two trees is
  inserted with three values (lines 330, 344, 375 and 378), and always at the end.
\<close>

datatype item =
  Item (iid: nat) (item_text: string) (vals: "string \<times> string \<times> string")
    (tags: "string list")
    (children: "item list")

record treeview =
  top_items :: "item list"
  serial :: nat

fun ids :: "item \<Rightarrow> nat list" where
  "ids (Item i t v g cs) = i # concat (map ids cs)"

definition forest_ids :: "item list \<Rightarrow> nat set" where
  "forest_ids xs = (\<Union>x \<in> set xs. set (ids x))"

definition tv_exists :: "treeview \<Rightarrow> nat \<Rightarrow> bool" where
  "tv_exists tv p \<longleftrightarrow> p \<in> set (concat (map ids (top_items tv)))"

text \<open>The new item becomes the last child of the item \<open>p\<close>.\<close>

fun ins :: "nat \<Rightarrow> item \<Rightarrow> item \<Rightarrow> item" where
  "ins p new (Item i t v g cs) =
     Item i t v g (map (ins p new) cs @ (if i = p then [new] else []))"

definition TclError :: "nat \<Rightarrow> pyexn" where
  "TclError p = PyExn ''TclError'' (''Item '' @ str_nat p @ '' not found'')"

text \<open>\<^verbatim>\<open>tree.insert(parent, 'end', text=..., values=..., tags=...)\<close>\<close>

definition tv_insert ::
  "nat \<Rightarrow> string \<Rightarrow> string \<times> string \<times> string \<Rightarrow> string list \<Rightarrow> treeview \<Rightarrow>
   pyexn + nat \<times> treeview" where
  "tv_insert parent t v g tv =
     (let new = Item (Suc (serial tv)) t v g []
      in if parent = 0
         then Inr (Suc (serial tv), \<lparr>top_items = top_items tv @ [new], serial = Suc (serial tv)\<rparr>)
         else if tv_exists tv parent
         then Inr (Suc (serial tv),
                   \<lparr>top_items = map (ins parent new) (top_items tv), serial = Suc (serial tv)\<rparr>)
         else Inl (TclError parent))"

text \<open>\<^verbatim>\<open>tree.delete(*tree.get_children())\<close>\<close>

definition tv_clear :: "treeview \<Rightarrow> treeview" where
  "tv_clear tv = tv\<lparr>top_items := []\<rparr>"

text \<open>
  The rows of a tree, parents before children: identifier, text, values and tags of
  every item.
\<close>

type_synonym row = "nat \<times> string \<times> (string \<times> string \<times> string) \<times> string list"

fun rows :: "item \<Rightarrow> row list" where
  "rows (Item i t v g cs) = (i, t, v, g) # concat (map rows cs)"

definition tv_rows :: "treeview \<Rightarrow> row list" where
  "tv_rows tv = concat (map rows (top_items tv))"

subsection \<open>\<^verbatim>\<open>FileConsolidatorApp._collect_included_files\<close>\<close>

text \<open>
  Lines 128 to 132: the text of the item, with the texts of its ancestors put in front
  of it one after the other by following \<^verbatim>\<open>tree.parent\<close> until the root \<^verbatim>\<open>""\<close>. The
  result lists the texts from the outermost ancestor down to the item itself.
\<close>

fun find_path :: "nat \<Rightarrow> item \<Rightarrow> string list option"
  and find_path_list :: "nat \<Rightarrow> item list \<Rightarrow> string list option" where
  "find_path n (Item i t v g cs) =
     (if n = i then Some [t] else map_option (\<lambda>p. t # p) (find_path_list n cs))"
| "find_path_list n [] = None"
| "find_path_list n (c # cs) =
     (case find_path n c of Some p \<Rightarrow> Some p | None \<Rightarrow> find_path_list n cs)"

definition path_parts :: "item list \<Rightarrow> nat \<Rightarrow> string list" where
  "path_parts forest n = (case find_path_list n forest of Some p \<Rightarrow> p | None \<Rightarrow> [])"

text \<open>
  The traversal: \<open>forest\<close> is the whole tree, the list argument the items named by
  \<^verbatim>\<open>parent_ids\<close>, \<open>file_list\<close> the list being filled.
\<close>

fun collect_included_files ::
  "string \<Rightarrow> item list \<Rightarrow> item list \<Rightarrow> string list \<Rightarrow> string list" where
  "collect_included_files root forest [] file_list = file_list"
| "collect_included_files root forest (Item i t (status, size_kb, kind) g cs # rest) file_list =
     collect_included_files root forest rest
       (if status = ''Included'' \<and> kind \<noteq> ''Folder''
        then file_list @ [join root (path_parts forest i)]
        else if kind = ''Folder''
        then collect_included_files root forest cs file_list
        else file_list)"

text \<open>Lines 68 and 69 of \<^verbatim>\<open>start_consolidation\<close>: the merge input.\<close>

definition files_to_process :: "string \<Rightarrow> treeview \<Rightarrow> string list" where
  "files_to_process root tv = collect_included_files root (top_items tv) (top_items tv) []"

subsection \<open>\<^verbatim>\<open>UIManager.populate_file_tree\<close>\<close>

text \<open>
  The directory under the root folder, as \<^verbatim>\<open>os.walk\<close> reads it: the sub-directories
  with what they hold and the names of the other entries, each in the order of the
  directory read. \<^verbatim>\<open>os.walk\<close> lists, but does not enter, a sub-directory that it
  cannot read or that is a symbolic link (\<open>Not_walked\<close>).
\<close>

datatype dir =
    Dir (subdirs: "(string \<times> dir) list") (filenames: "string list")
  | Not_walked

text \<open>
  What the scan calls outside the repository: \<^verbatim>\<open>fnmatch.fnmatch\<close> (name, then
  pattern), \<^verbatim>\<open>ast.literal_eval\<close> on a pattern text, and the size column of a path
  (\<^verbatim>\<open>os.path.getsize\<close> formatted, or \<^verbatim>\<open>N/A\<close>).
\<close>

record host =
  fnmatch :: "string \<Rightarrow> string \<Rightarrow> bool"
  literal_eval :: "string \<Rightarrow> pyexn + string list"
  getsize_kb :: "string \<Rightarrow> string"

text \<open>The variables of the application and of its handlers that the scan reads.\<close>

record settings =
  root_folder :: string
  folder_ignore_patterns :: string
  file_ignore_patterns :: string
  file_types :: string
  global_folder_ignores :: "string list"
  global_file_ignores :: "string list"
  show_ignored_separately :: bool
  hide_ignored :: bool
  filter_var :: string

text \<open>The local variables of lines 320 to 326.\<close>

record session =
  session_folder_ignores :: "string list"
  session_file_ignores :: "string list"
  extensions :: "string list"

text \<open>
  What the scan changes: the two trees, \<^verbatim>\<open>tree_item_paths\<close>, the list
  \<^verbatim>\<open>_all_tree_items_master_list\<close>, the warnings shown, and its local dictionary
  \<^verbatim>\<open>path_to_node_map\<close>.
\<close>

record ui =
  tree :: treeview
  ignored_tree :: treeview
  tree_item_paths :: "nat \<rightharpoonup> string"
  all_tree_items_master_list :: "nat list"
  warnings :: "(string \<times> string) list"
  path_to_node_map :: "string \<rightharpoonup> nat"

text \<open>\<^verbatim>\<open>str.split(',')\<close> and \<^verbatim>\<open>str.strip()\<close> (ASCII white space).\<close>

fun split_on :: "char \<Rightarrow> string \<Rightarrow> string list" where
  "split_on c [] = [[]]"
| "split_on c (x # xs) =
     (if x = c then [] # split_on c xs
      else (case split_on c xs of w # ws \<Rightarrow> (x # w) # ws | [] \<Rightarrow> [[x]]))"

definition is_space :: "char \<Rightarrow> bool" where
  "is_space c \<longleftrightarrow>
     (let n = (of_char c :: nat) in (9 \<le> n \<and> n \<le> 13) \<or> (28 \<le> n \<and> n \<le> 32))"

definition strip :: "string \<Rightarrow> string" where
  "strip s = rev (dropWhile is_space (rev (dropWhile is_space s)))"

text \<open>Line 326.\<close>

definition parse_extensions :: "string \<Rightarrow> string list" where
  "parse_extensions t =
     map (\<lambda>ext. lower (strip ext)) (filter (\<lambda>ext. strip ext \<noteq> []) (split_on (CHR '','') t))"

text \<open>
  Lines 319 to 324. The handler catches \<^verbatim>\<open>ValueError\<close> and \<^verbatim>\<open>SyntaxError\<close> (\<open>exn_class\<close>
  names the class the handler matches on); any other exception leaves the function.
\<close>

definition invalid_patterns :: "pyexn \<Rightarrow> bool" where
  "invalid_patterns e \<longleftrightarrow> exn_class e = ''ValueError'' \<or> exn_class e = ''SyntaxError''"

definition invalid_warning :: "string \<times> string" where
  "invalid_warning =
     (''Invalid Patterns'', ''Ignore patterns were invalid and reset to defaults.'')"

text \<open>
  The two session lists and whether the warning is shown, or the exception that leaves
  the function.
\<close>

definition parse_patterns :: "host \<Rightarrow> settings \<Rightarrow> pyexn + (string list \<times> string list) \<times> bool" where
  "parse_patterns h cfg =
     (let handle = (\<lambda>e. if invalid_patterns e then Inr (([], []), True) else Inl e)
      in case literal_eval h (folder_ignore_patterns cfg) of
           Inl e \<Rightarrow> handle e
         | Inr folders \<Rightarrow>
             (case literal_eval h (file_ignore_patterns cfg) of
                Inl e \<Rightarrow> handle e
              | Inr files \<Rightarrow> Inr ((folders, files), False)))"

text \<open>The rules a scan works with (empty session lists when the parse left the function).\<close>

definition scan_session :: "host \<Rightarrow> settings \<Rightarrow> session" where
  "scan_session h cfg =
     (case parse_patterns h cfg of
        Inl e \<Rightarrow>
          \<lparr>session_folder_ignores = [], session_file_ignores = [],
           extensions = parse_extensions (file_types cfg)\<rparr>
      | Inr ((folders, files), warn) \<Rightarrow>
          \<lparr>session_folder_ignores = folders, session_file_ignores = files,
           extensions = parse_extensions (file_types cfg)\<rparr>)"

text \<open>Lines 337 and 338: the folders that stay in \<^verbatim>\<open>dirnames\<close>.\<close>

definition keep_folder :: "host \<Rightarrow> settings \<Rightarrow> session \<Rightarrow> string \<Rightarrow> bool" where
  "keep_folder h cfg ses d \<longleftrightarrow>
     \<not> list_ex (\<lambda>pat. fnmatch h d pat) (session_folder_ignores ses) \<and>
     \<not> list_ex (\<lambda>pat. fnmatch h d pat) (global_folder_ignores cfg)"

definition folder_vals :: "string \<times> string \<times> string" where
  "folder_vals = ('''', '''', ''Folder'')"

text \<open>Lines 342 to 346: one row of the main tree for each folder that stays.\<close>

fun add_folders :: "nat \<Rightarrow> string \<Rightarrow> string list \<Rightarrow> ui \<Rightarrow> pyexn option \<times> ui" where
  "add_folders parent_node_id dirpath [] s = (None, s)"
| "add_folders parent_node_id dirpath (d # rest) s =
     (case tv_insert parent_node_id d folder_vals [] (tree s) of
        Inl e \<Rightarrow> (Some e, s)
      | Inr (node_id, tv) \<Rightarrow>
          add_folders parent_node_id dirpath rest
            (s\<lparr>tree := tv,
               path_to_node_map := (path_to_node_map s)(join2 dirpath d \<mapsto> node_id),
               tree_item_paths := (tree_item_paths s)(node_id \<mapsto> join2 dirpath d)\<rparr>))"

text \<open>Lines 352 to 355 and 360 to 363.\<close>

definition is_ext_match :: "session \<Rightarrow> string \<Rightarrow> bool" where
  "is_ext_match ses basename' \<longleftrightarrow>
     list_ex (\<lambda>ext. endswith (lower basename') ext) (extensions ses)"

definition is_global_file_ignored :: "host \<Rightarrow> settings \<Rightarrow> string \<Rightarrow> bool" where
  "is_global_file_ignored h cfg basename' \<longleftrightarrow>
     list_ex (\<lambda>pat. fnmatch h basename' pat) (global_file_ignores cfg)"

definition is_session_file_ignored :: "host \<Rightarrow> session \<Rightarrow> string \<Rightarrow> bool" where
  "is_session_file_ignored h ses basename' \<longleftrightarrow>
     list_ex (\<lambda>pat. fnmatch h basename' pat) (session_file_ignores ses)"

definition is_ignored :: "host \<Rightarrow> settings \<Rightarrow> session \<Rightarrow> string \<Rightarrow> bool" where
  "is_ignored h cfg ses basename' \<longleftrightarrow>
     is_global_file_ignored h cfg basename' \<or> is_session_file_ignored h ses basename' \<or>
     \<not> is_ext_match ses basename'"

definition status_and_tags ::
  "host \<Rightarrow> settings \<Rightarrow> session \<Rightarrow> string \<Rightarrow> string \<times> string list" where
  "status_and_tags h cfg ses basename' =
     (if is_session_file_ignored h ses basename' then (''Ignored (Session)'', [''session_ignore''])
      else if is_global_file_ignored h cfg basename' then (''Ignored (Global)'', [''global_ignore''])
      else if \<not> is_ext_match ses basename' then (''Ignored (Type)'', [''type_ignore''])
      else (''Included'', []))"

text \<open>
  Lines 373 to 376: the parent of an ignored file shown separately. The dictionary that
  is consulted is the one filled with the identifiers of the main tree.
\<close>

definition ignored_parent :: "string \<Rightarrow> ui \<Rightarrow> pyexn + nat \<times> ui" where
  "ignored_parent dirpath s =
     (case path_to_node_map s dirpath of
        Some n \<Rightarrow> Inr (n, s)
      | None \<Rightarrow>
          (case tv_insert 0 (basename dirpath) folder_vals [] (ignored_tree s) of
             Inl e \<Rightarrow> Inl e
           | Inr (n, tv) \<Rightarrow>
               Inr (n, s\<lparr>ignored_tree := tv,
                          path_to_node_map := (path_to_node_map s)(dirpath \<mapsto> n)\<rparr>)))"

text \<open>Lines 349 to 381: one file of the directory \<open>dirpath\<close>.\<close>

definition add_file ::
  "host \<Rightarrow> settings \<Rightarrow> session \<Rightarrow> string \<Rightarrow> string \<Rightarrow> ui \<Rightarrow> pyexn option \<times> ui" where
  "add_file h cfg ses dirpath f s =
     (let full_path = join2 dirpath f;
          ign = is_ignored h cfg ses f
      in if hide_ignored cfg \<and> ign \<and> \<not> show_ignored_separately cfg then (None, s)
         else
           (let (status, tgs) = status_and_tags h cfg ses f;
                v = (status, getsize_kb h full_path, snd (splitext f));
                apart = ign \<and> show_ignored_separately cfg
            in case (if apart then ignored_parent dirpath s
                     else Inr (case path_to_node_map s dirpath of Some n \<Rightarrow> n | None \<Rightarrow> 0, s)) of
                 Inl e \<Rightarrow> (Some e, s)
               | Inr (parent_id, s1) \<Rightarrow>
                   (case tv_insert parent_id f v tgs (if apart then ignored_tree s1 else tree s1) of
                      Inl e \<Rightarrow> (Some e, s1)
                    | Inr (node_id, tv) \<Rightarrow>
                        (let s2 = (if apart then s1\<lparr>ignored_tree := tv\<rparr> else s1\<lparr>tree := tv\<rparr>);
                             s3 = s2\<lparr>tree_item_paths := (tree_item_paths s2)(node_id \<mapsto> full_path)\<rparr>
                         in (None,
                             if ign then s3
                             else s3\<lparr>all_tree_items_master_list :=
                                       all_tree_items_master_list s3 @ [node_id]\<rparr>)))))"

fun add_files ::
  "host \<Rightarrow> settings \<Rightarrow> session \<Rightarrow> string \<Rightarrow> string list \<Rightarrow> ui \<Rightarrow> pyexn option \<times> ui" where
  "add_files h cfg ses dirpath [] s = (None, s)"
| "add_files h cfg ses dirpath (f # rest) s =
     (case add_file h cfg ses dirpath f s of
        (Some e, s') \<Rightarrow> (Some e, s')
      | (None, s') \<Rightarrow> add_files h cfg ses dirpath rest s')"

text \<open>
  The body of the loop (lines 335 to 381) for one directory, \<open>dirnames\<close> being the
  folders that stayed. Nothing in it raises \<^verbatim>\<open>PermissionError\<close> (\<^verbatim>\<open>os.walk\<close> keeps the
  errors of reading a directory to itself, and the size has a handler of its own), so
  the handler of line 382 is never entered; a \<^verbatim>\<open>TclError\<close> leaves the function.
\<close>

definition visit ::
  "host \<Rightarrow> settings \<Rightarrow> session \<Rightarrow> string \<Rightarrow> string list \<Rightarrow> string list \<Rightarrow> ui \<Rightarrow>
   pyexn option \<times> ui" where
  "visit h cfg ses dirpath dirnames fnames s =
     (let parent_node_id = (case path_to_node_map s dirpath of Some n \<Rightarrow> n | None \<Rightarrow> 0)
      in case add_folders parent_node_id dirpath dirnames s of
           (Some e, s') \<Rightarrow> (Some e, s')
         | (None, s') \<Rightarrow> add_files h cfg ses dirpath fnames s')"

text \<open>
  \<^verbatim>\<open>for dirpath, dirnames, filenames in os.walk(root_path, topdown=True)\<close>: the body
  runs for a directory, then \<^verbatim>\<open>os.walk\<close> goes down into the folders left in
  \<^verbatim>\<open>dirnames\<close>, in order, and into no other.
\<close>

fun walk :: "host \<Rightarrow> settings \<Rightarrow> session \<Rightarrow> string \<Rightarrow> dir \<Rightarrow> ui \<Rightarrow> pyexn option \<times> ui"
  and walk_subdirs ::
    "host \<Rightarrow> settings \<Rightarrow> session \<Rightarrow> string \<Rightarrow> (string \<times> dir) list \<Rightarrow> ui \<Rightarrow> pyexn option \<times> ui"
  where
  "walk h cfg ses dirpath Not_walked s = (None, s)"
| "walk h cfg ses dirpath (Dir subs fnames) s =
     (case visit h cfg ses dirpath (filter (keep_folder h cfg ses) (map fst subs)) fnames s of
        (Some e, s') \<Rightarrow> (Some e, s')
      | (None, s') \<Rightarrow> walk_subdirs h cfg ses dirpath subs s')"
| "walk_subdirs h cfg ses dirpath [] s = (None, s)"
| "walk_subdirs h cfg ses dirpath ((d, sub) # rest) s =
     (if keep_folder h cfg ses d
      then (case walk h cfg ses (join2 dirpath d) sub s of
              (Some e, s') \<Rightarrow> (Some e, s')
            | (None, s') \<Rightarrow> walk_subdirs h cfg ses dirpath rest s')
      else walk_subdirs h cfg ses dirpath rest s)"

text \<open>
  Lines 304 to 383, the scan: \<^verbatim>\<open>populate_file_tree\<close> without the call of
  \<^verbatim>\<open>filter_tree\<close> that ends it (line 385). The result is the state in which line 385
  is reached, or in which the function is left before it (the \<^verbatim>\<open>return\<close> of line 317,
  an exception). The directory argument is \<open>None\<close> when \<^verbatim>\<open>root_path\<close> is not a
  directory. The whole function is \<open>populate_file_tree\<close> below.
\<close>

definition scan_file_tree ::
  "host \<Rightarrow> settings \<Rightarrow> dir option \<Rightarrow> ui \<Rightarrow> pyexn option \<times> ui" where
  "scan_file_tree h cfg root s =
     (let s0 = s\<lparr>tree := tv_clear (tree s), ignored_tree := tv_clear (ignored_tree s),
                  tree_item_paths := Map.empty, all_tree_items_master_list := []\<rparr>
      in case root of
           None \<Rightarrow> (None, s0)
         | Some d \<Rightarrow>
             if root_folder cfg = [] then (None, s0)
             else
               (case parse_patterns h cfg of
                  Inl e \<Rightarrow> (Some e, s0)
                | Inr ((folders, files), warn) \<Rightarrow>
                    (let s1 = (if warn then s0\<lparr>warnings := warnings s0 @ [invalid_warning]\<rparr>
                               else s0);
                         ses = \<lparr>session_folder_ignores = folders, session_file_ignores = files,
                                extensions = parse_extensions (file_types cfg)\<rparr>
                     in case tv_insert 0 (basename (root_folder cfg)) folder_vals [] (tree s1) of
                          Inl e \<Rightarrow> (Some e, s1)
                        | Inr (root_node_id, tv) \<Rightarrow>
                            walk h cfg ses (root_folder cfg) d
                              (s1\<lparr>tree := tv,
                                  path_to_node_map := [root_folder cfg \<mapsto> root_node_id],
                                  tree_item_paths :=
                                    (tree_item_paths s1)(root_node_id \<mapsto> root_folder cfg)\<rparr>))))"

text \<open>The folders with a matching name taken out, at every depth, with all they hold.\<close>

fun prune :: "(string \<Rightarrow> bool) \<Rightarrow> dir \<Rightarrow> dir"
  and prune_subdirs :: "(string \<Rightarrow> bool) \<Rightarrow> (string \<times> dir) list \<Rightarrow> (string \<times> dir) list" where
  "prune keep Not_walked = Not_walked"
| "prune keep (Dir subs fnames) = Dir (prune_subdirs keep subs) fnames"
| "prune_subdirs keep [] = []"
| "prune_subdirs keep ((d, sub) # rest) =
     (if keep d then (d, prune keep sub) # prune_subdirs keep rest else prune_subdirs keep rest)"

text \<open>Every folder of the directory, at every depth, has a name that passes \<open>keep\<close>.\<close>

fun folders_kept :: "(string \<Rightarrow> bool) \<Rightarrow> dir \<Rightarrow> bool"
  and subdirs_kept :: "(string \<Rightarrow> bool) \<Rightarrow> (string \<times> dir) list \<Rightarrow> bool" where
  "folders_kept keep Not_walked \<longleftrightarrow> True"
| "folders_kept keep (Dir subs fnames) \<longleftrightarrow> subdirs_kept keep subs"
| "subdirs_kept keep [] \<longleftrightarrow> True"
| "subdirs_kept keep ((d, sub) # rest) \<longleftrightarrow>
     keep d \<and> folders_kept keep sub \<and> subdirs_kept keep rest"

subsection \<open>\<^verbatim>\<open>UIManager.filter_tree\<close>\<close>

text \<open>
  \<^verbatim>\<open>os.path.dirname\<close> (posixpath): the path up to its last \<^verbatim>\<open>/\<close>, without the
  separators that end it unless it holds nothing else.
\<close>

definition dirname :: "string \<Rightarrow> string" where
  "dirname p =
     (let head = rev (dropWhile (\<lambda>c. c \<noteq> CHR ''/'') (rev p))
      in if head \<noteq> [] \<and> head \<noteq> replicate (length head) (CHR ''/'')
         then rev (dropWhile (\<lambda>c. c = CHR ''/'') (rev head))
         else head)"

text \<open>\<^verbatim>\<open>sub in s\<close> for two strings.\<close>

fun str_in :: "string \<Rightarrow> string \<Rightarrow> bool" where
  "str_in sub [] \<longleftrightarrow> sub = []"
| "str_in sub (c # cs) \<longleftrightarrow> take (length sub) (c # cs) = sub \<or> str_in sub cs"

text \<open>
  \<^verbatim>\<open>tree.item(node_id, option)\<close>: the text, the values and the tags of an item of the
  tree; \<^verbatim>\<open>TclError\<close> when the tree has no such item.
\<close>

definition tv_item ::
  "treeview \<Rightarrow> nat \<Rightarrow> pyexn + string \<times> (string \<times> string \<times> string) \<times> string list" where
  "tv_item tv node_id =
     (case map_of (tv_rows tv) node_id of
        None \<Rightarrow> Inl (TclError node_id)
      | Some r \<Rightarrow> Inr r)"

text \<open>
  The call of line 403 unpacks the values of the item, a tuple, with \<^verbatim>\<open>**\<close>: when the
  item exists, the call raises \<^verbatim>\<open>TypeError\<close> before \<^verbatim>\<open>insert\<close> is entered.
\<close>

definition not_a_mapping :: pyexn where
  "not_a_mapping = PyExn ''TypeError'' ''argument after ** must be a mapping, not tuple''"

text \<open>
  Lines 397 to 401: the loop that climbs from \<open>parent_path\<close> towards the root folder
  and inserts a top-level folder row for every path on the way that
  \<^verbatim>\<open>tree_item_paths\<close> does not hold as a value. The loop ends at the empty path or at
  the root folder; a path that \<^verbatim>\<open>dirname\<close> leaves as it is (\<^verbatim>\<open>/\<close>) and that is not
  the root folder keeps it running for ever, and the result is then \<open>None\<close>.
\<close>

partial_function (option) show_parents :: "string \<Rightarrow> string \<Rightarrow> ui \<Rightarrow> (pyexn option \<times> ui) option"
  where
  "show_parents root parent_path s =
     (if parent_path \<noteq> [] \<and> parent_path \<noteq> root
      then (if parent_path \<notin> ran (tree_item_paths s)
            then (case tv_insert 0 (basename parent_path) folder_vals [] (tree s) of
                    Inl e \<Rightarrow> Some (Some e, s)
                  | Inr (parent_id, tv) \<Rightarrow>
                      show_parents root (dirname parent_path)
                        (s\<lparr>tree := tv,
                           tree_item_paths := (tree_item_paths s)(parent_id \<mapsto> parent_path)\<rparr>))
            else show_parents root (dirname parent_path) s)
      else Some (None, s))"

text \<open>
  Lines 392 to 403, the body of the loop for one item of the master list. The test of
  line 394 reads the text of the item only when the search text is not part of the
  path. Line 403 evaluates \<^verbatim>\<open>self.tree.item(node_id, "values")\<close> as an argument of
  \<^verbatim>\<open>insert\<close>, so that it raises \<^verbatim>\<open>TclError\<close> (no such item) or \<^verbatim>\<open>TypeError\<close> (the
  values are no mapping) and \<^verbatim>\<open>insert\<close> is never entered; the \<^verbatim>\<open>parent_id\<close> that
  line 402 looks up, without effect on the state, is therefore never used.
\<close>

definition filter_item :: "settings \<Rightarrow> string \<Rightarrow> nat \<Rightarrow> ui \<Rightarrow> (pyexn option \<times> ui) option" where
  "filter_item cfg search_text node_id s =
     (case tree_item_paths s node_id of
        None \<Rightarrow> Some (None, s)
      | Some p \<Rightarrow>
          (let path = lower p
           in case (if str_in search_text path then Inr True
                    else (case tv_item (tree s) node_id of
                            Inl e \<Rightarrow> Inl e
                          | Inr (t, v, g) \<Rightarrow> Inr (str_in search_text (lower t)))) of
                Inl e \<Rightarrow> Some (Some e, s)
              | Inr False \<Rightarrow> Some (None, s)
              | Inr True \<Rightarrow>
                  (case show_parents (root_folder cfg) (dirname path) s of
                     None \<Rightarrow> None
                   | Some (Some e, s') \<Rightarrow> Some (Some e, s')
                   | Some (None, s') \<Rightarrow>
                       (case tv_item (tree s') node_id of
                          Inl e \<Rightarrow> Some (Some e, s')
                        | Inr r \<Rightarrow> Some (Some not_a_mapping, s')))))"

text \<open>Line 391: the items of the master list, in order, until one raises.\<close>

fun filter_loop :: "settings \<Rightarrow> string \<Rightarrow> nat list \<Rightarrow> ui \<Rightarrow> (pyexn option \<times> ui) option" where
  "filter_loop cfg search_text [] s = Some (None, s)"
| "filter_loop cfg search_text (node_id # rest) s =
     (case filter_item cfg search_text node_id s of
        None \<Rightarrow> None
      | Some (Some e, s') \<Rightarrow> Some (Some e, s')
      | Some (None, s') \<Rightarrow> filter_loop cfg search_text rest s')"

text \<open>
  Lines 389 to 403. Line 390 deletes every row of the main tree; the identifiers of
  the master list are those of rows deleted there.
\<close>

definition filter_tree :: "settings \<Rightarrow> ui \<Rightarrow> (pyexn option \<times> ui) option" where
  "filter_tree cfg s =
     (let search_text = lower (filter_var cfg);
          s1 = s\<lparr>tree := tv_clear (tree s)\<rparr>
      in filter_loop cfg search_text (all_tree_items_master_list s1) s1)"

subsection \<open>\<^verbatim>\<open>UIManager.populate_file_tree\<close>, the whole function\<close>

text \<open>
  Lines 304 to 385: the scan, and then \<^verbatim>\<open>filter_tree\<close> when the loop over the
  directories has ended without an exception. The result is \<open>None\<close> when the function
  does not return.
\<close>

definition populate_file_tree ::
  "host \<Rightarrow> settings \<Rightarrow> dir option \<Rightarrow> ui \<Rightarrow> (pyexn option \<times> ui) option" where
  "populate_file_tree h cfg root s =
     (let s0 = s\<lparr>tree := tv_clear (tree s), ignored_tree := tv_clear (ignored_tree s),
                  tree_item_paths := Map.empty, all_tree_items_master_list := []\<rparr>
      in case root of
           None \<Rightarrow> Some (None, s0)
         | Some d \<Rightarrow>
             if root_folder cfg = [] then Some (None, s0)
             else
               (case parse_patterns h cfg of
                  Inl e \<Rightarrow> Some (Some e, s0)
                | Inr ((folders, files), warn) \<Rightarrow>
                    (let s1 = (if warn then s0\<lparr>warnings := warnings s0 @ [invalid_warning]\<rparr>
                               else s0);
                         ses = \<lparr>session_folder_ignores = folders, session_file_ignores = files,
                                extensions = parse_extensions (file_types cfg)\<rparr>
                     in case tv_insert 0 (basename (root_folder cfg)) folder_vals [] (tree s1) of
                          Inl e \<Rightarrow> Some (Some e, s1)
                        | Inr (root_node_id, tv) \<Rightarrow>
                            (case walk h cfg ses (root_folder cfg) d
                                    (s1\<lparr>tree := tv,
                                        path_to_node_map := [root_folder cfg \<mapsto> root_node_id],
                                        tree_item_paths :=
                                          (tree_item_paths s1)(root_node_id \<mapsto> root_folder cfg)\<rparr>) of
                               (Some e, s2) \<Rightarrow> Some (Some e, s2)
                             | (None, s2) \<Rightarrow> filter_tree cfg s2))))"

subsection \<open>Invariants of the scan\<close>

text \<open>
  A row of a file carries the status and the tags that the rules give its name.
\<close>

definition row_ok :: "host \<Rightarrow> settings \<Rightarrow> session \<Rightarrow> row \<Rightarrow> bool" where
  "row_ok h cfg ses r =
     (case r of (i, t, (status, size_kb, kind), g) \<Rightarrow>
        kind = ''Folder'' \<or> (status, g) = status_and_tags h cfg ses t)"

definition rows_ok :: "host \<Rightarrow> settings \<Rightarrow> session \<Rightarrow> ui \<Rightarrow> bool" where
  "rows_ok h cfg ses s \<longleftrightarrow>
     list_all (row_ok h cfg ses) (tv_rows (tree s)) \<and>
     list_all (row_ok h cfg ses) (tv_rows (ignored_tree s))"

text \<open>
  A property of the state that every row added for a folder and every file step keeps:
  the walk keeps it too, whether it ends normally or not.
\<close>

definition keeps :: "host \<Rightarrow> settings \<Rightarrow> session \<Rightarrow> (ui \<Rightarrow> bool) \<Rightarrow> bool" where
  "keeps h cfg ses Q \<longleftrightarrow>
     (\<forall>parent dirpath d s n tv. Q s \<longrightarrow>
        tv_insert parent d folder_vals [] (tree s) = Inr (n, tv) \<longrightarrow>
        Q (s\<lparr>tree := tv,
              path_to_node_map := (path_to_node_map s)(join2 dirpath d \<mapsto> n),
              tree_item_paths := (tree_item_paths s)(n \<mapsto> join2 dirpath d)\<rparr>)) \<and>
     (\<forall>dirpath f s e s'. Q s \<longrightarrow> add_file h cfg ses dirpath f s = (e, s') \<longrightarrow> Q s')"

text \<open>Every identifier kept in \<^verbatim>\<open>path_to_node_map\<close> names an item of the main tree.\<close>

definition map_in_tree :: "ui \<Rightarrow> bool" where
  "map_in_tree s \<longleftrightarrow> (\<forall>p n. path_to_node_map s p = Some n \<longrightarrow> tv_exists (tree s) n)"

text \<open>
  The paths of the entries that the walk reaches from \<open>dirpath\<close>: the files of a
  directory, its folders whose names pass, and what is reached below those.
\<close>

fun kept_paths :: "(string \<Rightarrow> bool) \<Rightarrow> string \<Rightarrow> dir \<Rightarrow> string set"
  and kept_paths_subdirs :: "(string \<Rightarrow> bool) \<Rightarrow> string \<Rightarrow> (string \<times> dir) list \<Rightarrow> string set" where
  "kept_paths keep dirpath Not_walked = {}"
| "kept_paths keep dirpath (Dir subs fnames) =
     join2 dirpath ` set fnames \<union> join2 dirpath ` set (filter keep (map fst subs)) \<union>
     kept_paths_subdirs keep dirpath subs"
| "kept_paths_subdirs keep dirpath [] = {}"
| "kept_paths_subdirs keep dirpath ((d, sub) # rest) =
     (if keep d then kept_paths keep (join2 dirpath d) sub else {}) \<union>
     kept_paths_subdirs keep dirpath rest"

text \<open>
  The files of the directories that the walk reaches from \<open>dirpath\<close>, each with the
  path of its directory.
\<close>

fun reached_files :: "(string \<Rightarrow> bool) \<Rightarrow> string \<Rightarrow> dir \<Rightarrow> (string \<times> string) set"
  and reached_files_subdirs ::
    "(string \<Rightarrow> bool) \<Rightarrow> string \<Rightarrow> (string \<times> dir) list \<Rightarrow> (string \<times> string) set" where
  "reached_files keep dirpath Not_walked = {}"
| "reached_files keep dirpath (Dir subs fnames) =
     Pair dirpath ` set fnames \<union> reached_files_subdirs keep dirpath subs"
| "reached_files_subdirs keep dirpath [] = {}"
| "reached_files_subdirs keep dirpath ((d, sub) # rest) =
     (if keep d then reached_files keep (join2 dirpath d) sub else {}) \<union>
     reached_files_subdirs keep dirpath rest"

text \<open>
  A file has its row: the main tree holds a row with the file's name, the status and
  the tags that the rules give the name, its size and its extension, and
  \<^verbatim>\<open>tree_item_paths\<close> maps the row's identifier to the file's path; or else the file is
  one that the hide-ignored view omits (line 357).
\<close>

definition bounded :: "ui \<Rightarrow> bool" where
  "bounded s \<longleftrightarrow> (\<forall>n \<in> dom (tree_item_paths s). n \<le> serial (tree s))"

definition file_row :: "host \<Rightarrow> settings \<Rightarrow> session \<Rightarrow> string \<Rightarrow> string \<Rightarrow> nat \<Rightarrow> row" where
  "file_row h cfg ses dirpath f n =
     (n, f,
      (fst (status_and_tags h cfg ses f), getsize_kb h (join2 dirpath f), snd (splitext f)),
      snd (status_and_tags h cfg ses f))"

definition has_row :: "host \<Rightarrow> settings \<Rightarrow> session \<Rightarrow> ui \<Rightarrow> string \<times> string \<Rightarrow> bool" where
  "has_row h cfg ses s e =
     (case e of (dirpath, f) \<Rightarrow>
        (hide_ignored cfg \<and> is_ignored h cfg ses f) \<or>
        (\<exists>n. tree_item_paths s n = Some (join2 dirpath f) \<and>
             file_row h cfg ses dirpath f n \<in> set (tv_rows (tree s))))"

definition shown :: "host \<Rightarrow> settings \<Rightarrow> session \<Rightarrow> (string \<times> string) set \<Rightarrow> ui \<Rightarrow> bool" where
  "shown h cfg ses A s \<longleftrightarrow>
     map_in_tree s \<and> bounded s \<and> (\<forall>e \<in> A. has_row h cfg ses s e)"

text \<open>Every row of the tree is the row of a folder.\<close>

definition folder_rows :: "treeview \<Rightarrow> bool" where
  "folder_rows tv \<longleftrightarrow>
     list_all (\<lambda>(i, t, (status, size_kb, kind), g). kind = ''Folder'') (tv_rows tv)"

text \<open>
  Every identifier of the tree is above \<open>k\<close>, and so is every identifier it will
  generate.
\<close>

definition ids_above :: "nat \<Rightarrow> treeview \<Rightarrow> bool" where
  "ids_above k tv \<longleftrightarrow> k \<le> serial tv \<and> list_all (\<lambda>r. k < fst r) (tv_rows tv)"

text \<open>
  Every item of the master list has a path and an identifier that the main tree has
  generated.
\<close>

definition master_known :: "ui \<Rightarrow> bool" where
  "master_known s \<longleftrightarrow>
     list_all (\<lambda>n. n \<le> serial (tree s) \<and> tree_item_paths s n \<noteq> None)
       (all_tree_items_master_list s)"

subsection \<open>Sample inputs for the scan\<close>

text \<open>
  Shell patterns without bracket expressions (\<^verbatim>\<open>*\<close>, \<^verbatim>\<open>?\<close> and literal characters),
  matched with case: what \<^verbatim>\<open>fnmatch.fnmatch\<close> does for such patterns on a POSIX host.
  Only the sample inputs use it.
\<close>

fun glob_match :: "string \<Rightarrow> string \<Rightarrow> bool" where
  "glob_match [] n \<longleftrightarrow> n = []"
| "glob_match (p # ps) [] \<longleftrightarrow> p = CHR ''*'' \<and> glob_match ps []"
| "glob_match (p # ps) (c # cs) \<longleftrightarrow>
     (if p = CHR ''*'' then glob_match ps (c # cs) \<or> glob_match (p # ps) cs
      else (p = CHR ''?'' \<or> p = c) \<and> glob_match ps cs)"

text \<open>
  \<^verbatim>\<open>ast.literal_eval\<close> on the texts of the samples: two lists, a set display that
  holds a list (\<^verbatim>\<open>TypeError\<close>, a list cannot be an element of a set), and texts that
  are no Python expression.
\<close>

definition sample_literal_eval :: "string \<Rightarrow> pyexn + string list" where
  "sample_literal_eval t =
     (if t = ''[]'' then Inr []
      else if t = ''['' @ quote @ ''tmp'' @ quote @ '']'' then Inr [''tmp'']
      else if t = ''{[1]}''
      then Inl (PyExn ''TypeError'' (''unhashable type: '' @ quote @ ''list'' @ quote))
      else Inl (PyExn ''SyntaxError'' ''invalid syntax''))"

definition sample_host :: host where
  "sample_host =
     \<lparr>fnmatch = (\<lambda>name pat. glob_match pat name),
      literal_eval = sample_literal_eval,
      getsize_kb = (\<lambda>p. ''0.01'')\<rparr>"

definition sample_settings :: settings where
  "sample_settings =
     \<lparr>root_folder = ''/r/proj'',
      folder_ignore_patterns = ''[]'',
      file_ignore_patterns = ''[]'',
      file_types = ''.py'',
      global_folder_ignores = [''__pycache__'', ''.git''],
      global_file_ignores = [''*.log''],
      show_ignored_separately = False,
      hide_ignored = False,
      filter_var = ''''\<rparr>"

definition sample_dir :: dir where
  "sample_dir = Dir [(''__pycache__'', Dir [] [''c.py''])] [''a.py'', ''b.pyc'']"

definition sample_ui :: ui where
  "sample_ui =
     \<lparr>tree = \<lparr>top_items = [], serial = 0\<rparr>, ignored_tree = \<lparr>top_items = [], serial = 0\<rparr>,
      tree_item_paths = Map.empty, all_tree_items_master_list = [], warnings = [],
      path_to_node_map = Map.empty\<rparr>"

text \<open>The same settings with the ignored files shown in the separate tree.\<close>

definition sample_apart :: settings where
  "sample_apart = sample_settings\<lparr>show_ignored_separately := True\<rparr>"

section \<open>The text strategy\<close>

lemma text_step_result:
  "text_step ev i path f s = text_result ev i [path] f (flag_reads s) s"
  by (cases "read_text ev path")
     (simp_all add: text_step_def text_result_def text_piece_def text_errors_def put_def
        outfile_write_def append_error_def open_r_def text_written_def Let_def)

lemma text_result_compose:
  "text_result ev (Suc i) ps f r (text_result ev i [p] f r' s) = text_result ev i (p # ps) f r s"
  by (simp add: text_result_def text_written_def)

lemma text_result_Nil:
  "written s f = Some (Text_file t) \<Longrightarrow> text_result ev i [] f r s = s\<lparr>flag_reads := r\<rparr>"
  by (simp add: text_result_def text_written_def map_upd_triv)

text \<open>
  The loop stops at the first check that sees the flag set; with \<open>K\<close> the number of
  checks that passed before, exactly the first \<open>K\<close> files have been worked through.
\<close>

lemma text_loop_result:
  assumes "K \<le> length paths"
    and "\<forall>k<K. \<not> cancel_requested ev (flag_reads s + k)"
    and "K < length paths \<longrightarrow> cancel_requested ev (flag_reads s + K)"
    and "written s f = Some (Text_file t)"
  shows "text_loop ev i paths f s =
         text_result ev i (take K paths) f
           (flag_reads s + (if K < length paths then Suc K else K)) s"
  using assms
proof (induction paths arbitrary: i K s t)
  case Nil
  then show ?case by (simp add: text_result_Nil)
next
  case (Cons p ps)
  show ?case
  proof (cases K)
    case 0
    with Cons.prems show ?thesis
      by (simp add: get_cancel_def text_result_Nil)
  next
    case (Suc K')
    let ?s1 = "s\<lparr>flag_reads := Suc (flag_reads s)\<rparr>"
    let ?s2 = "text_step ev i p f ?s1"
    from Cons.prems Suc have nc: "\<not> cancel_requested ev (flag_reads s)"
      by auto
    have fr: "flag_reads ?s2 = Suc (flag_reads s)"
      by (simp add: text_step_result text_result_def)
    have wr: "written ?s2 f = Some (Text_file (t @ text_piece ev (include_headers s) p))"
      using Cons.prems(4) by (simp add: text_step_result text_result_def text_written_def)
    have "text_loop ev (Suc i) ps f ?s2 =
          text_result ev (Suc i) (take K' ps) f
            (flag_reads ?s2 + (if K' < length ps then Suc K' else K')) ?s2"
    proof (rule Cons.IH)
      show "K' \<le> length ps" using Cons.prems Suc by simp
      show "\<forall>k<K'. \<not> cancel_requested ev (flag_reads ?s2 + k)"
        using Cons.prems(2) Suc fr by (metis Suc_less_eq add_Suc_shift)
      show "K' < length ps \<longrightarrow> cancel_requested ev (flag_reads ?s2 + K')"
        using Cons.prems(3) Suc fr by simp
      show "written ?s2 f = Some (Text_file (t @ text_piece ev (include_headers s) p))"
        by (rule wr)
    qed
    then show ?thesis
      using nc Suc fr
      by (simp add: get_cancel_def text_step_result text_result_compose)
         (simp add: text_result_def text_written_def)
  qed
qed

lemma merge_as_text_result:
  assumes "open_w ev out = None"
    and "K \<le> length paths"
    and "\<forall>k<K. \<not> cancel_requested ev (flag_reads s + k)"
    and "K < length paths \<longrightarrow> cancel_requested ev (flag_reads s + K)"
  shows "merge_as_text ev paths out s =
         (None, s\<lparr>processing_queue := processing_queue s @ text_msgs 0 (take K paths),
                  processing_errors :=
                    processing_errors s @ concat (map (text_errors ev) (take K paths)),
                  opened := opened s @ take K paths,
                  written := (written s)(out \<mapsto>
                    Text_file (concat (map (text_piece ev (include_headers s)) (take K paths)))),
                  flag_reads := flag_reads s + (if K < length paths then Suc K else K)\<rparr>)"
proof -
  let ?s0 = "s\<lparr>written := (written s)(out \<mapsto> Text_file [])\<rparr>"
  have "text_loop ev 0 paths out ?s0 =
        text_result ev 0 (take K paths) out
          (flag_reads ?s0 + (if K < length paths then Suc K else K)) ?s0"
    by (rule text_loop_result [where t = "[]"]) (use assms in simp_all)
  then show ?thesis
    using assms(1) by (simp add: merge_as_text_def text_result_def text_written_def)
qed




text \<open>
  Claim C6. The flag is read once before each file. When the first \<open>K\<close> checks see it
  clear and it is set from then on (\<open>K\<close> of the \<open>N\<close> files done), \<^verbatim>\<open>merge_as_text\<close>
  returns normally after \<open>K + 1\<close> reads of the flag; the output, the error list and the
  queue are those of an uncancelled merge of the first \<open>K\<close> files alone, so the error list
  holds what those files added and nothing for the cancellation; the closing status of
  \<^verbatim>\<open>merge_documents\<close> (lines 55 to 59) is then \<^verbatim>\<open>Operation cancelled.\<close>, again with
  no error added.
\<close>

theorem merge_as_text_cancelled:
  assumes "open_w ev output_filename = None"
    and "K < length file_paths"
    and "\<forall>k<K. \<not> cancel_requested ev (flag_reads s + k)"
    and "\<forall>k\<ge>K. cancel_requested ev (flag_reads s + k)"
  shows "(let r = merge_as_text ev file_paths output_filename s;
              quiet = merge_as_text (ev\<lparr>cancel_requested := (\<lambda>k. False)\<rparr>)
                        (take K file_paths) output_filename s
          in fst r = None \<and>
             flag_reads (snd r) = flag_reads s + K + 1 \<and>
             written (snd r) output_filename =
               Some (Text_file
                 (concat (map (text_piece ev (include_headers s)) (take K file_paths)))) \<and>
             written (snd r) = written (snd quiet) \<and>
             processing_errors (snd r) = processing_errors (snd quiet) \<and>
             processing_errors (snd r) =
               processing_errors s @ concat (map (text_errors ev) (take K file_paths)) \<and>
             processing_queue (snd r) = processing_queue (snd quiet) \<and>
             processing_queue (closing_status ev file_paths (snd r)) =
               processing_queue (snd r) @ [Status ''Operation cancelled.''] \<and>
             processing_errors (closing_status ev file_paths (snd r)) =
               processing_errors (snd r))"
proof -
  let ?ev' = "ev\<lparr>cancel_requested := (\<lambda>k. False)\<rparr>"
  let ?done = "take K file_paths"
  have r: "merge_as_text ev file_paths output_filename s =
        (None, s\<lparr>processing_queue := processing_queue s @ text_msgs 0 ?done,
                 processing_errors := processing_errors s @ concat (map (text_errors ev) ?done),
                 opened := opened s @ ?done,
                 written := (written s)(output_filename \<mapsto>
                   Text_file (concat (map (text_piece ev (include_headers s)) ?done))),
                 flag_reads := flag_reads s + (if K < length file_paths then Suc K else K)\<rparr>)"
    by (rule merge_as_text_result) (use assms in simp_all)
  have q: "merge_as_text ?ev' ?done output_filename s =
        (None, s\<lparr>processing_queue := processing_queue s @ text_msgs 0 (take K ?done),
                 processing_errors := processing_errors s @ concat (map (text_errors ?ev') (take K ?done)),
                 opened := opened s @ take K ?done,
                 written := (written s)(output_filename \<mapsto>
                   Text_file (concat (map (text_piece ?ev' (include_headers s)) (take K ?done)))),
                 flag_reads := flag_reads s + (if K < length ?done then Suc K else K)\<rparr>)"
    by (rule merge_as_text_result) (use assms in simp_all)
  have same: "text_piece ?ev' = text_piece ev" "text_errors ?ev' = text_errors ev"
    by (simp_all add: fun_eq_iff text_piece_def text_errors_def)
  have later: "cancel_requested ev (Suc (flag_reads s + K))"
    using assms(4) [rule_format, of "Suc K"] by simp
  show ?thesis
    unfolding Let_def r q same
    using assms(2) later by (simp add: closing_status_def get_cancel_def put_def)
qed

theorem merge_as_text_cancelled_witness:
  "written (snd (merge_as_text (cancel_env 2)
      [''/r/a.py'', ''/r/missing.py'', ''/r/b.py'', ''/r/a.py'', ''/r/b.py''] ''/out.txt'' sample_app))
     ''/out.txt'' =
     Some (Text_file (''x = 1'' @ NL @
        ''# Error reading file /r/missing.py: [Errno 2] No such file or directory'' @ NL)) \<and>
   processing_errors (snd (merge_as_text (cancel_env 2)
      [''/r/a.py'', ''/r/missing.py'', ''/r/b.py'', ''/r/a.py'', ''/r/b.py''] ''/out.txt'' sample_app)) =
     [''Error reading file /r/missing.py: [Errno 2] No such file or directory'']"
proof -
  let ?paths = "[''/r/a.py'', ''/r/missing.py'', ''/r/b.py'', ''/r/a.py'', ''/r/b.py'']"
  have h: "open_w (cancel_env 2) ''/out.txt'' = None" "2 < length ?paths"
    "\<forall>k<2. \<not> cancel_requested (cancel_env 2) (flag_reads sample_app + k)"
    "\<forall>k\<ge>2. cancel_requested (cancel_env 2) (flag_reads sample_app + k)"
    by (simp_all add: cancel_env_def sample_env_def sample_app_def)
  note c = merge_as_text_cancelled [OF h, unfolded Let_def]
  have w: "written (snd (merge_as_text (cancel_env 2) ?paths ''/out.txt'' sample_app)) ''/out.txt'' =
      Some (Text_file (concat (map (text_piece (cancel_env 2) (include_headers sample_app))
        (take 2 ?paths))))"
    using c by blast
  have e: "processing_errors (snd (merge_as_text (cancel_env 2) ?paths ''/out.txt'' sample_app)) =
      processing_errors sample_app @ concat (map (text_errors (cancel_env 2)) (take 2 ?paths))"
    using c by blast
  show ?thesis
    unfolding w e
    by (simp add: cancel_env_def sample_env_def sample_app_def text_piece_def
        text_errors_def read_error_msg_def no_such_file_def)
qed

text \<open>
  Claim C8. In \<^verbatim>\<open>merge_as_text\<close> a file that cannot be read never ends the merge:
  the function returns normally, and for each of the \<open>K\<close> files reached before a
  cancellation (all of them when none is seen) the output holds, in that file's place,
  its content and a newline or else the comment line
  \<^verbatim>\<open># Error reading file <path>: <exception>\<close>, the error list gains the matching
  message for exactly the unreadable ones, in order, and the queue holds the two
  messages of every one of those files.
\<close>

theorem merge_as_text_unreadable:
  assumes "open_w ev output_filename = None"
    and "K \<le> length file_paths"
    and "\<forall>k<K. \<not> cancel_requested ev (flag_reads s + k)"
    and "K < length file_paths \<longrightarrow> cancel_requested ev (flag_reads s + K)"
  shows "(let r = merge_as_text ev file_paths output_filename s
          in fst r = None \<and>
             written (snd r) output_filename =
               Some (Text_file (concat (map
                 (\<lambda>p. (if include_headers s then header p else []) @
                    (case read_text ev p of
                       Inr content \<Rightarrow> content @ NL
                     | Inl e \<Rightarrow> ''# Error reading file '' @ p @ '': '' @ exn_msg e @ NL))
                 (take K file_paths)))) \<and>
             processing_errors (snd r) =
               processing_errors s @ concat (map
                 (\<lambda>p. case read_text ev p of
                    Inr content \<Rightarrow> []
                  | Inl e \<Rightarrow> [''Error reading file '' @ p @ '': '' @ exn_msg e])
                 (take K file_paths)) \<and>
             processing_queue (snd r) = processing_queue s @ text_msgs 0 (take K file_paths))"
proof -
  let ?done = "take K file_paths"
  have r: "merge_as_text ev file_paths output_filename s =
        (None, s\<lparr>processing_queue := processing_queue s @ text_msgs 0 ?done,
                 processing_errors := processing_errors s @ concat (map (text_errors ev) ?done),
                 opened := opened s @ ?done,
                 written := (written s)(output_filename \<mapsto>
                   Text_file (concat (map (text_piece ev (include_headers s)) ?done))),
                 flag_reads := flag_reads s + (if K < length file_paths then Suc K else K)\<rparr>)"
    by (rule merge_as_text_result) (use assms in simp_all)
  have piece: "text_piece ev (include_headers s) =
      (\<lambda>p. (if include_headers s then header p else []) @
         (case read_text ev p of
            Inr content \<Rightarrow> content @ NL
          | Inl e \<Rightarrow> ''# Error reading file '' @ p @ '': '' @ exn_msg e @ NL))"
    by (auto simp: fun_eq_iff text_piece_def read_error_msg_def split: sum.splits)
  have errs: "text_errors ev =
      (\<lambda>p. case read_text ev p of
         Inr content \<Rightarrow> []
       | Inl e \<Rightarrow> [''Error reading file '' @ p @ '': '' @ exn_msg e])"
    by (auto simp: fun_eq_iff text_errors_def read_error_msg_def split: sum.splits)
  show ?thesis
    unfolding Let_def r by (simp add: piece errs)
qed

theorem merge_as_text_unreadable_witness:
  "written (snd (merge_as_text sample_env [''/r/a.py'', ''/r/missing.py'', ''/r/b.py'']
      ''/out.txt'' sample_app)) ''/out.txt'' =
     Some (Text_file (''x = 1'' @ NL @
        ''# Error reading file /r/missing.py: [Errno 2] No such file or directory'' @ NL @
        ''y = 2'' @ NL)) \<and>
   processing_errors (snd (merge_as_text sample_env [''/r/a.py'', ''/r/missing.py'', ''/r/b.py'']
      ''/out.txt'' sample_app)) =
     [''Error reading file /r/missing.py: [Errno 2] No such file or directory'']"
  using merge_as_text_unreadable [of sample_env "''/out.txt''" 3
      "[''/r/a.py'', ''/r/missing.py'', ''/r/b.py'']" sample_app]
  by (simp add: sample_env_def sample_app_def Let_def no_such_file_def)

section \<open>Dispatch\<close>

text \<open>
  Whatever the selector, building the dictionary of line 44 raises: the object has no
  attribute \<^verbatim>\<open>merge_as_pdf\<close>. Nothing has been done by then.
\<close>

lemma merge_documents_raises:
  "merge_documents ev file_paths output_filename output_format s =
     (Some (AttributeError ''merge_as_pdf''), s)"
  by (simp add: merge_documents_def getattr_def FileProcessor_attr_def)

text \<open>
  Claim C5. When the selector is none of \<^verbatim>\<open>TXT\<close>, \<^verbatim>\<open>PDF\<close>, \<^verbatim>\<open>DOCX\<close>, \<^verbatim>\<open>PPTX\<close>,
  \<^verbatim>\<open>merge_documents\<close> raises and leaves the state as it found it; \<^verbatim>\<open>process_files\<close>
  records the exception as a critical error and signals completion; no input file has
  been opened and no file written.
\<close>

theorem merge_documents_unknown_format:
  assumes "output_format \<notin> {''TXT'', ''PDF'', ''DOCX'', ''PPTX''}"
  shows "merge_documents ev file_paths output_filename output_format s =
           (Some (AttributeError ''merge_as_pdf''), s) \<and>
         process_files ev file_paths output_filename output_format s =
           s\<lparr>processing_queue := processing_queue s @
                  [Max_progress (length file_paths), Done file_paths output_filename],
              processing_errors := processing_errors s @
                  [''A critical error occurred: '' @ quote @ ''FileProcessor'' @ quote @
                   '' object has no attribute '' @ quote @ ''merge_as_pdf'' @ quote]\<rparr> \<and>
         opened (process_files ev file_paths output_filename output_format s) = opened s \<and>
         written (process_files ev file_paths output_filename output_format s) = written s"
  by (simp add: merge_documents_raises process_files_def put_def append_error_def
      AttributeError_def)

theorem merge_documents_unknown_format_witness:
  "processing_errors (process_files sample_env [''/r/a.py''] ''/out.xlsx'' ''XLSX'' sample_app) =
     [''A critical error occurred: '' @ quote @ ''FileProcessor'' @ quote @
      '' object has no attribute '' @ quote @ ''merge_as_pdf'' @ quote] \<and>
   opened (process_files sample_env [''/r/a.py''] ''/out.xlsx'' ''XLSX'' sample_app) = [] \<and>
   written (process_files sample_env [''/r/a.py''] ''/out.xlsx'' ''XLSX'' sample_app) = Map.empty"
  using merge_documents_unknown_format [of "''XLSX''" sample_env "[''/r/a.py'']" "''/out.xlsx''"
      sample_app]
  by (simp add: sample_app_def)

section \<open>The PDF strategy\<close>

lemma endswith_last: "endswith s suf \<Longrightarrow> suf \<noteq> [] \<Longrightarrow> last s = last suf"
  by (metis append_take_drop_id last_appendR endswith_def)

lemma docx_not_pdf: "endswith s ''.docx'' \<Longrightarrow> \<not> endswith s ''.pdf''"
  using endswith_last [of s "''.docx''"] endswith_last [of s "''.pdf''"] by auto

lemma pdf_step_pdf:
  assumes "endswith (lower a) ''.pdf''" and "read_pdf ev a = Inr pages"
  shows "pdf_step ev i a j s =
     (None, j\<lparr>writer := writer j @ pages\<rparr>,
      s\<lparr>processing_queue := processing_queue s @
           [Status (''Converting: '' @ basename a), Progress (i + 1),
            Status (''Appending: '' @ basename a)],
        opened := opened s @ [a]\<rparr>)"
  using assms by (simp add: pdf_step_def pdf_append_def put_def open_r_def Let_def)

lemma pdf_step_skipped:
  assumes "\<not> OFFICE_INSTALLED ev" and "endswith (lower b) ''.docx''"
  shows "pdf_step ev i b j s =
     (None, j,
      s\<lparr>processing_queue := processing_queue s @
           [Status (''Converting: '' @ basename b), Progress (i + 1)],
        processing_errors := processing_errors s @
           [''Skipped unsupported file for PDF merge: '' @ basename b]\<rparr>)"
  using assms docx_not_pdf [of "lower b"]
  by (simp add: pdf_step_def put_def append_error_def Let_def)

text \<open>
  Claim C7. Without the Office conversion service (\<open>OFFICE_INSTALLED\<close> false),
  \<^verbatim>\<open>merge_as_pdf\<close> given a readable \<^verbatim>\<open>.pdf\<close> file \<open>a\<close> and a \<^verbatim>\<open>.docx\<close> file \<open>b\<close>, with
  the output file opened and no cancellation seen, returns normally; the output PDF
  holds exactly the pages of \<open>a\<close>; the error list gains the one entry
  \<^verbatim>\<open>Skipped unsupported file for PDF merge: <name of b>\<close> and no critical error; both
  files are announced on the queue and the final save is reached; only \<open>a\<close> is opened;
  and the closing status of lines 55 to 59 is \<^verbatim>\<open>Finished. Consolidated ... files.\<close>
  The output and the error list are the same when \<open>b\<close> comes first.
\<close>

theorem merge_as_pdf_without_office:
  assumes "\<not> OFFICE_INSTALLED ev"
    and "endswith (lower a) ''.pdf''"
    and "endswith (lower b) ''.docx''"
    and "read_pdf ev a = Inr pages"
    and "open_w ev output_filename = None"
    and "\<forall>k<4. \<not> cancel_requested ev (flag_reads s + k)"
  shows "(let r = merge_as_pdf ev [a, b] output_filename s;
              r' = merge_as_pdf ev [b, a] output_filename s
          in fst r = None \<and>
             written (snd r) = (written s)(output_filename \<mapsto> Pdf_file pages) \<and>
             processing_errors (snd r) =
               processing_errors s @ [''Skipped unsupported file for PDF merge: '' @ basename b] \<and>
             processing_queue (snd r) =
               processing_queue s @
                 [Status (''Converting: '' @ basename a), Progress 1,
                  Status (''Appending: '' @ basename a),
                  Status (''Converting: '' @ basename b), Progress 2,
                  Status ''Saving final PDF...''] \<and>
             opened (snd r) = opened s @ [a] \<and>
             processing_queue (closing_status ev [a, b] (snd r)) =
               processing_queue (snd r) @
                 [Status (''Finished. Consolidated '' @
                    str_int (1 - int (length (processing_errors s))) @ '' files.'')] \<and>
             fst r' = None \<and>
             written (snd r') = written (snd r) \<and>
             processing_errors (snd r') = processing_errors (snd r))"
proof -
  have c: "\<not> cancel_requested ev (flag_reads s)" "\<not> cancel_requested ev (Suc (flag_reads s))"
    "\<not> cancel_requested ev (Suc (Suc (flag_reads s)))"
    "\<not> cancel_requested ev (Suc (Suc (Suc (flag_reads s))))"
    using assms(6) [rule_format, of 0] assms(6) [rule_format, of 1]
      assms(6) [rule_format, of 2] assms(6) [rule_format, of 3]
    by (simp_all add: numeral_3_eq_3 numeral_2_eq_2)
  have w: "list_ex (\<lambda>p. is_word p \<or> is_powerpoint p) [a, b]"
    "list_ex (\<lambda>p. is_word p \<or> is_powerpoint p) [b, a]"
    using assms(3) by (simp_all add: is_word_def)
  show ?thesis
    using assms(1,5) c w
    by (simp add: merge_as_pdf_def Let_def get_cancel_def pdf_step_pdf [OF assms(2,4)]
        pdf_step_skipped [OF assms(1,3)] pdf_save_def put_def append_error_def
        closing_status_def)
qed

theorem merge_as_pdf_without_office_witness:
  "written (snd (merge_as_pdf sample_env [''/r/a.pdf'', ''/r/b.docx''] ''/out.pdf'' sample_app)) =
     [''/out.pdf'' \<mapsto> Pdf_file [''page 1'', ''page 2'']] \<and>
   processing_errors
     (snd (merge_as_pdf sample_env [''/r/a.pdf'', ''/r/b.docx''] ''/out.pdf'' sample_app)) =
     [''Skipped unsupported file for PDF merge: b.docx'']"
proof -
  have h: "\<not> OFFICE_INSTALLED sample_env" "endswith (lower ''/r/a.pdf'') ''.pdf''"
    "endswith (lower ''/r/b.docx'') ''.docx''"
    "read_pdf sample_env ''/r/a.pdf'' = Inr [''page 1'', ''page 2'']"
    "open_w sample_env ''/out.pdf'' = None"
    "\<forall>k<4. \<not> cancel_requested sample_env (flag_reads sample_app + k)"
    by (simp_all add: sample_env_def endswith_def lower_def lower_char_def)
  note c = merge_as_pdf_without_office [OF h, unfolded Let_def]
  have w: "written (snd (merge_as_pdf sample_env [''/r/a.pdf'', ''/r/b.docx''] ''/out.pdf'' sample_app)) =
      (written sample_app)(''/out.pdf'' \<mapsto> Pdf_file [''page 1'', ''page 2''])"
    using c by blast
  have e: "processing_errors
      (snd (merge_as_pdf sample_env [''/r/a.pdf'', ''/r/b.docx''] ''/out.pdf'' sample_app)) =
      processing_errors sample_app @
        [''Skipped unsupported file for PDF merge: '' @ basename ''/r/b.docx'']"
    using c by blast
  show ?thesis
    unfolding w e by (simp add: sample_app_def basename_def)
qed

section \<open>The Word and PowerPoint strategies\<close>

lemma docx_step_frame:
  "docx_step ev i path m s = (m', s') \<Longrightarrow>
     written s' = written s \<and> flag_reads s' = flag_reads s"
  by (auto simp: docx_step_def Let_def put_def append_error_def open_r_def
      split: if_splits sum.splits)

lemma docx_loop_written:
  "docx_loop ev i paths m s = (c, m', s') \<Longrightarrow> written s' = written s"
proof (induction paths arbitrary: i m s)
  case Nil
  then show ?case by simp
next
  case (Cons p ps)
  show ?case
  proof (cases "cancel_requested ev (flag_reads s)")
    case True
    with Cons.prems show ?thesis by (auto simp: get_cancel_def)
  next
    case False
    obtain m1 s1 where st: "docx_step ev i p m (s\<lparr>flag_reads := Suc (flag_reads s)\<rparr>) = (m1, s1)"
      by (cases "docx_step ev i p m (s\<lparr>flag_reads := Suc (flag_reads s)\<rparr>)")
    with False Cons.prems have "docx_loop ev (Suc i) ps m1 s1 = (c, m', s')"
      by (simp add: get_cancel_def)
    then have "written s' = written s1" by (rule Cons.IH)
    with docx_step_frame [OF st] show ?thesis by simp
  qed
qed

text \<open>A check that sees the flag set, at whatever iteration, ends the loop by \<^verbatim>\<open>return\<close>.\<close>

lemma docx_loop_returns:
  "k < length paths \<Longrightarrow> cancel_requested ev (flag_reads s + k) \<Longrightarrow>
   fst (docx_loop ev i paths m s)"
proof (induction paths arbitrary: i m s k)
  case Nil
  then show ?case by simp
next
  case (Cons p ps)
  show ?case
  proof (cases "cancel_requested ev (flag_reads s)")
    case True
    then show ?thesis by (simp add: get_cancel_def)
  next
    case False
    obtain m1 s1 where st: "docx_step ev i p m (s\<lparr>flag_reads := Suc (flag_reads s)\<rparr>) = (m1, s1)"
      by (cases "docx_step ev i p m (s\<lparr>flag_reads := Suc (flag_reads s)\<rparr>)")
    from False Cons.prems obtain k' where k: "k = Suc k'"
      by (cases k) auto
    have "fst (docx_loop ev (Suc i) ps m1 s1)"
    proof (rule Cons.IH)
      show "k' < length ps" using Cons.prems k by simp
      show "cancel_requested ev (flag_reads s1 + k')"
        using Cons.prems k docx_step_frame [OF st] by simp
    qed
    with False st show ?thesis by (simp add: get_cancel_def)
  qed
qed

lemma copy_shapes_frame:
  "copy_shapes path shs new s = (new', s') \<Longrightarrow>
     written s' = written s \<and> flag_reads s' = flag_reads s"
  by (induction path shs new s rule: copy_shapes.induct) (auto simp: append_error_def)

lemma copy_slides_frame:
  "copy_slides path sls m s = (m', s') \<Longrightarrow>
     written s' = written s \<and> flag_reads s' = flag_reads s"
proof (induction sls arbitrary: m s)
  case Nil
  then show ?case by simp
next
  case (Cons sl sls)
  obtain new s1 where cs: "copy_shapes path (shapes sl) [] s = (new, s1)"
    by (cases "copy_shapes path (shapes sl) [] s")
  with Cons.prems have "copy_slides path sls (m @ [Slide (slide_layout sl) new]) s1 = (m', s')"
    by simp
  then have "written s' = written s1 \<and> flag_reads s' = flag_reads s1" by (rule Cons.IH)
  with copy_shapes_frame [OF cs] show ?case by simp
qed

lemma pptx_step_frame:
  "pptx_step ev i path m s = (m', s') \<Longrightarrow>
     written s' = written s \<and> flag_reads s' = flag_reads s"
  by (auto simp: pptx_step_def Let_def put_def append_error_def open_r_def
      split: if_splits sum.splits dest!: copy_slides_frame)

lemma pptx_loop_written:
  "pptx_loop ev i paths m s = (c, m', s') \<Longrightarrow> written s' = written s"
proof (induction paths arbitrary: i m s)
  case Nil
  then show ?case by simp
next
  case (Cons p ps)
  show ?case
  proof (cases "cancel_requested ev (flag_reads s)")
    case True
    with Cons.prems show ?thesis by (auto simp: get_cancel_def)
  next
    case False
    obtain m1 s1 where st: "pptx_step ev i p m (s\<lparr>flag_reads := Suc (flag_reads s)\<rparr>) = (m1, s1)"
      by (cases "pptx_step ev i p m (s\<lparr>flag_reads := Suc (flag_reads s)\<rparr>)")
    with False Cons.prems have "pptx_loop ev (Suc i) ps m1 s1 = (c, m', s')"
      by (simp add: get_cancel_def)
    then have "written s' = written s1" by (rule Cons.IH)
    with pptx_step_frame [OF st] show ?thesis by simp
  qed
qed

lemma pptx_loop_returns:
  "k < length paths \<Longrightarrow> cancel_requested ev (flag_reads s + k) \<Longrightarrow>
   fst (pptx_loop ev i paths m s)"
proof (induction paths arbitrary: i m s k)
  case Nil
  then show ?case by simp
next
  case (Cons p ps)
  show ?case
  proof (cases "cancel_requested ev (flag_reads s)")
    case True
    then show ?thesis by (simp add: get_cancel_def)
  next
    case False
    obtain m1 s1 where st: "pptx_step ev i p m (s\<lparr>flag_reads := Suc (flag_reads s)\<rparr>) = (m1, s1)"
      by (cases "pptx_step ev i p m (s\<lparr>flag_reads := Suc (flag_reads s)\<rparr>)")
    from False Cons.prems obtain k' where k: "k = Suc k'"
      by (cases k) auto
    have "fst (pptx_loop ev (Suc i) ps m1 s1)"
    proof (rule Cons.IH)
      show "k' < length ps" using Cons.prems k by simp
      show "cancel_requested ev (flag_reads s1 + k')"
        using Cons.prems k pptx_step_frame [OF st] by simp
    qed
    with False st show ?thesis by (simp add: get_cancel_def)
  qed
qed

text \<open>
  Claim C10. In \<^verbatim>\<open>merge_as_docx\<close> and in \<^verbatim>\<open>merge_as_pptx\<close>, if the check before some
  file (the \<open>k\<close>-th read of the flag, \<open>k\<close> below the number of files) sees the flag set,
  the function returns without raising and the files written are exactly those written
  before the call: the save is never reached and no output file exists.
\<close>

theorem docx_pptx_cancelled_never_written:
  assumes "k < length file_paths"
    and "cancel_requested ev (flag_reads s + k)"
  shows "fst (merge_as_docx ev file_paths output_filename s) = None \<and>
         written (snd (merge_as_docx ev file_paths output_filename s)) = written s \<and>
         fst (merge_as_pptx ev file_paths output_filename s) = None \<and>
         written (snd (merge_as_pptx ev file_paths output_filename s)) = written s"
proof -
  let ?m0 = "if include_headers s then [Heading ''Consolidated Document'' 0] else []"
  obtain md sd where d: "docx_loop ev 0 file_paths ?m0 s = (True, md, sd)"
    using docx_loop_returns [OF assms, of 0 ?m0]
    by (cases "docx_loop ev 0 file_paths ?m0 s") auto
  obtain mp sp where p: "pptx_loop ev 0 file_paths [] s = (True, mp, sp)"
    using pptx_loop_returns [OF assms, of 0 "[]"]
    by (cases "pptx_loop ev 0 file_paths [] s") auto
  have ne: "file_paths \<noteq> []" using assms(1) by auto
  show ?thesis
    using d p ne docx_loop_written [OF d] pptx_loop_written [OF p]
    by (simp add: merge_as_docx_def merge_as_pptx_def)
qed

theorem docx_pptx_cancelled_never_written_witness:
  "written (snd (merge_as_docx (cancel_env 1) [''/r/b.docx'', ''/r/b.docx''] ''/out.docx''
      sample_app)) = Map.empty \<and>
   written (snd (merge_as_pptx (cancel_env 1) [''/r/c.pptx'', ''/r/c.pptx''] ''/out.pptx''
      sample_app)) = Map.empty"
proof -
  have h: "cancel_requested (cancel_env 1) (flag_reads sample_app + 1)"
    by (simp add: cancel_env_def sample_app_def)
  have "written (snd (merge_as_docx (cancel_env 1) [''/r/b.docx'', ''/r/b.docx''] ''/out.docx''
      sample_app)) = written sample_app"
    using docx_pptx_cancelled_never_written [OF _ h, of "[''/r/b.docx'', ''/r/b.docx'']"]
    by simp
  moreover have "written (snd (merge_as_pptx (cancel_env 1) [''/r/c.pptx'', ''/r/c.pptx'']
      ''/out.pptx'' sample_app)) = written sample_app"
    using docx_pptx_cancelled_never_written [OF _ h, of "[''/r/c.pptx'', ''/r/c.pptx'']"]
    by simp
  ultimately show ?thesis by (simp add: sample_app_def)
qed

section \<open>The trees\<close>

lemma ids_ins:
  "set (ids (ins p new it)) = set (ids it) \<union> (if p \<in> set (ids it) then set (ids new) else {})"
  by (induction it) (auto split: if_splits)

lemma rows_ins: "set (rows (ins p new it)) \<subseteq> set (rows it) \<union> set (rows new)"
  by (induction it) (auto split: if_splits)

lemma tv_exists_forest: "tv_exists tv p \<longleftrightarrow> p \<in> forest_ids (top_items tv)"
  by (simp add: tv_exists_def forest_ids_def)

lemma forest_ids_ins:
  "p \<in> forest_ids xs \<Longrightarrow> forest_ids (map (ins p new) xs) = forest_ids xs \<union> set (ids new)"
  unfolding forest_ids_def by (fastforce simp: ids_ins split: if_splits)

lemma forest_ids_append: "forest_ids (xs @ ys) = forest_ids xs \<union> forest_ids ys"
  by (auto simp: forest_ids_def)

lemma forest_rows_ins:
  "(\<Union>x \<in> set xs. set (rows (ins p new x))) \<subseteq> (\<Union>x \<in> set xs. set (rows x)) \<union> set (rows new)"
  using rows_ins [of p new] by fastforce

lemma tv_insert_Inr_iff:
  "(\<exists>r. tv_insert parent t v g tv = Inr r) \<longleftrightarrow> parent = 0 \<or> tv_exists tv parent"
  by (auto simp: tv_insert_def Let_def)

lemma tv_insert_exists:
  assumes "tv_insert parent t v g tv = Inr (n, tv')"
  shows "tv_exists tv' q \<longleftrightarrow> tv_exists tv q \<or> q = n"
proof (cases "parent = 0")
  case True
  with assms show ?thesis
    by (auto simp: tv_insert_def Let_def tv_exists_forest forest_ids_append forest_ids_def)
next
  case False
  with assms have ex: "parent \<in> forest_ids (top_items tv)"
    and tv': "tv' = \<lparr>top_items = map (ins parent (Item (Suc (serial tv)) t v g [])) (top_items tv),
                     serial = Suc (serial tv)\<rparr>"
    and n: "n = Suc (serial tv)"
    by (auto simp: tv_insert_def Let_def tv_exists_forest split: if_splits)
  show ?thesis
    unfolding tv_exists_forest tv' n by (simp add: forest_ids_ins [OF ex]) blast
qed

lemma tv_insert_rows:
  assumes "tv_insert parent t v g tv = Inr (n, tv')"
  shows "set (tv_rows tv') \<subseteq> insert (n, t, v, g) (set (tv_rows tv))"
proof (cases "parent = 0")
  case True
  with assms show ?thesis
    by (auto simp: tv_insert_def Let_def tv_rows_def)
next
  case False
  with assms have tv': "tv' = \<lparr>top_items = map (ins parent (Item (Suc (serial tv)) t v g [])) (top_items tv),
                     serial = Suc (serial tv)\<rparr>"
    and n: "n = Suc (serial tv)"
    by (auto simp: tv_insert_def Let_def split: if_splits)
  show ?thesis
    unfolding tv' n tv_rows_def
    using forest_rows_ins [where xs = "top_items tv" and p = parent
        and new = "Item (Suc (serial tv)) t v g []"]
    by auto
qed

section \<open>The scan\<close>

lemma tv_insert_rows_ok:
  assumes "tv_insert parent t v g tv = Inr (n, tv')"
    and "list_all P (tv_rows tv)" and "P (n, t, v, g)"
  shows "list_all P (tv_rows tv')"
  using tv_insert_rows [OF assms(1)] assms(2,3) by (auto simp: list_all_iff)

lemma add_folders_invariant:
  assumes "add_folders parent dirpath ds s = (e, s')" and "Q s"
    and folder: "\<And>d s n tv. Q s \<Longrightarrow> tv_insert parent d folder_vals [] (tree s) = Inr (n, tv) \<Longrightarrow>
      Q (s\<lparr>tree := tv,
            path_to_node_map := (path_to_node_map s)(join2 dirpath d \<mapsto> n),
            tree_item_paths := (tree_item_paths s)(n \<mapsto> join2 dirpath d)\<rparr>)"
  shows "Q s'"
  using assms(1,2)
proof (induction ds arbitrary: s)
  case Nil
  then show ?case by simp
next
  case (Cons d ds)
  show ?case
  proof (cases "tv_insert parent d folder_vals [] (tree s)")
    case (Inl x)
    with Cons.prems show ?thesis by simp
  next
    case (Inr r)
    obtain n tv where r: "r = (n, tv)" by (cases r)
    let ?s1 = "s\<lparr>tree := tv,
               path_to_node_map := (path_to_node_map s)(join2 dirpath d \<mapsto> n),
               tree_item_paths := (tree_item_paths s)(n \<mapsto> join2 dirpath d)\<rparr>"
    have ok: "Q ?s1" using folder [OF Cons.prems(2) Inr [unfolded r]] .
    from Cons.prems(1) Inr r have "add_folders parent dirpath ds ?s1 = (e, s')" by simp
    then show ?thesis using ok by (rule Cons.IH)
  qed
qed

lemma add_files_invariant:
  assumes "add_files h cfg ses dirpath fs s = (e, s')" and "Q s"
    and step: "\<And>f s e s'. Q s \<Longrightarrow> add_file h cfg ses dirpath f s = (e, s') \<Longrightarrow> Q s'"
  shows "Q s'"
  using assms(1,2)
proof (induction fs arbitrary: s)
  case Nil
  then show ?case by simp
next
  case (Cons f fs)
  obtain e1 s1 where a: "add_file h cfg ses dirpath f s = (e1, s1)"
    by (cases "add_file h cfg ses dirpath f s")
  have ok1: "Q s1" using step [OF Cons.prems(2) a] .
  show ?case
  proof (cases e1)
    case None
    with Cons.prems(1) a have "add_files h cfg ses dirpath fs s1 = (e, s')" by simp
    then show ?thesis using ok1 by (rule Cons.IH)
  next
    case (Some x)
    with Cons.prems(1) a ok1 show ?thesis by simp
  qed
qed

lemma visit_invariant:
  assumes "visit h cfg ses dirpath ds fs s = (e, s')" and "Q s"
    and folder: "\<And>parent d s n tv. Q s \<Longrightarrow>
      tv_insert parent d folder_vals [] (tree s) = Inr (n, tv) \<Longrightarrow>
      Q (s\<lparr>tree := tv,
            path_to_node_map := (path_to_node_map s)(join2 dirpath d \<mapsto> n),
            tree_item_paths := (tree_item_paths s)(n \<mapsto> join2 dirpath d)\<rparr>)"
    and step: "\<And>f s e s'. Q s \<Longrightarrow> add_file h cfg ses dirpath f s = (e, s') \<Longrightarrow> Q s'"
  shows "Q s'"
proof -
  let ?p = "case path_to_node_map s dirpath of Some n \<Rightarrow> n | None \<Rightarrow> 0"
  obtain e1 s1 where a: "add_folders ?p dirpath ds s = (e1, s1)"
    by (cases "add_folders ?p dirpath ds s")
  have ok1: "Q s1"
    using a assms(2) by (rule add_folders_invariant) (rule folder)
  show ?thesis
  proof (cases e1)
    case None
    with assms(1) a have "add_files h cfg ses dirpath fs s1 = (e, s')"
      by (simp add: visit_def)
    then show ?thesis using ok1 by (rule add_files_invariant) (rule step)
  next
    case (Some x)
    with assms(1) a ok1 show ?thesis by (simp add: visit_def)
  qed
qed

lemma walk_keeps:
  "walk h cfg ses dirpath d s = (e, s') \<Longrightarrow> keeps h cfg ses Q \<Longrightarrow> Q s \<Longrightarrow> Q s'"
  "walk_subdirs h cfg ses dirpath subs s = (e, s') \<Longrightarrow> keeps h cfg ses Q \<Longrightarrow> Q s \<Longrightarrow> Q s'"
proof (induction h cfg ses dirpath d s and h cfg ses dirpath subs s
    arbitrary: e s' and e s' rule: walk_walk_subdirs.induct)
  case (1 h cfg ses dirpath s)
  then show ?case by simp
next
  case (2 h cfg ses dirpath subs fnames s)
  note k = "2.prems"(2)
  obtain e1 s1 where v: "visit h cfg ses dirpath (filter (keep_folder h cfg ses) (map fst subs))
      fnames s = (e1, s1)"
    by (cases "visit h cfg ses dirpath (filter (keep_folder h cfg ses) (map fst subs)) fnames s")
  have ok1: "Q s1"
    using v "2.prems"(3)
  proof (rule visit_invariant)
    show "Q (s\<lparr>tree := tv,
            path_to_node_map := (path_to_node_map s)(join2 dirpath d \<mapsto> n),
            tree_item_paths := (tree_item_paths s)(n \<mapsto> join2 dirpath d)\<rparr>)"
      if "Q s" "tv_insert parent d folder_vals [] (tree s) = Inr (n, tv)" for parent d s n tv
      using k that unfolding keeps_def by blast
    show "Q s'" if "Q s" "add_file h cfg ses dirpath f s = (e, s')" for f s e s'
      using k that unfolding keeps_def by blast
  qed
  show ?case
  proof (cases e1)
    case None
    with "2.prems"(1) v have "walk_subdirs h cfg ses dirpath subs s1 = (e, s')" by simp
    with "2.IH" [OF v [symmetric]] None k ok1 show ?thesis by simp
  next
    case (Some x)
    with "2.prems"(1) v ok1 show ?thesis by simp
  qed
next
  case (3 h cfg ses dirpath s)
  then show ?case by simp
next
  case (4 h cfg ses dirpath d sub rest s)
  note k = "4.prems"(2)
  show ?case
  proof (cases "keep_folder h cfg ses d")
    case False
    with "4.prems" "4.IH"(3) show ?thesis by simp
  next
    case True
    obtain e1 s1 where w: "walk h cfg ses (join2 dirpath d) sub s = (e1, s1)"
      by (cases "walk h cfg ses (join2 dirpath d) sub s")
    have ok1: "Q s1" using "4.IH"(1) [OF True w k "4.prems"(3)] .
    show ?thesis
    proof (cases e1)
      case None
      with "4.prems"(1) True w have "walk_subdirs h cfg ses dirpath rest s1 = (e, s')" by simp
      with "4.IH"(2) [OF True w [symmetric]] None k ok1 show ?thesis by simp
    next
      case (Some x)
      with "4.prems"(1) True w ok1 show ?thesis by simp
    qed
  qed
qed

lemma row_ok_folder: "row_ok h cfg ses (n, t, folder_vals, g)"
  by (simp add: row_ok_def folder_vals_def)

lemma ignored_parent_rows_ok:
  assumes "ignored_parent dirpath s = Inr (n, s')" and "rows_ok h cfg ses s"
  shows "rows_ok h cfg ses s'"
proof (cases "path_to_node_map s dirpath")
  case (Some m)
  with assms show ?thesis by (simp add: ignored_parent_def)
next
  case None
  with assms(1) obtain tv where
    i: "tv_insert 0 (basename dirpath) folder_vals [] (ignored_tree s) = Inr (n, tv)"
    and s': "s' = s\<lparr>ignored_tree := tv, path_to_node_map := (path_to_node_map s)(dirpath \<mapsto> n)\<rparr>"
    by (auto simp: ignored_parent_def split: sum.splits)
  have "list_all (row_ok h cfg ses) (tv_rows tv)"
    using tv_insert_rows_ok [OF i, of "row_ok h cfg ses"] assms(2)
    by (simp add: rows_ok_def row_ok_folder)
  then show ?thesis using assms(2) by (simp add: s' rows_ok_def)
qed

lemma add_file_rows_ok:
  assumes "add_file h cfg ses dirpath f s = (e, s')" and "rows_ok h cfg ses s"
  shows "rows_ok h cfg ses s'"
proof (cases "hide_ignored cfg \<and> is_ignored h cfg ses f \<and> \<not> show_ignored_separately cfg")
  case True
  with assms show ?thesis by (simp add: add_file_def Let_def)
next
  case False
  obtain status tgs where st: "status_and_tags h cfg ses f = (status, tgs)"
    by (cases "status_and_tags h cfg ses f")
  let ?v = "(status, getsize_kb h (join2 dirpath f), snd (splitext f))"
  have new: "row_ok h cfg ses (n, f, ?v, tgs)" for n
    by (simp add: row_ok_def st)
  show ?thesis
  proof (cases "is_ignored h cfg ses f \<and> show_ignored_separately cfg")
    case apart: True
    show ?thesis
    proof (cases "ignored_parent dirpath s")
      case (Inl x)
      with assms False apart show ?thesis by (simp add: add_file_def Let_def st)
    next
      case (Inr r)
      obtain p s1 where r: "r = (p, s1)" by (cases r)
      have ok1: "rows_ok h cfg ses s1"
        using ignored_parent_rows_ok [OF Inr [unfolded r] assms(2)] .
      show ?thesis
      proof (cases "tv_insert p f ?v tgs (ignored_tree s1)")
        case (Inl x)
        with assms False apart Inr r ok1 show ?thesis
          by (simp add: add_file_def Let_def st)
      next
        case (Inr q)
        obtain n tv where q: "q = (n, tv)" by (cases q)
        have "list_all (row_ok h cfg ses) (tv_rows tv)"
          using tv_insert_rows_ok [OF Inr [unfolded q], of "row_ok h cfg ses"] ok1 new
          by (simp add: rows_ok_def)
        with assms False apart \<open>ignored_parent dirpath s = Inr r\<close> r Inr q ok1 show ?thesis
          by (auto simp: add_file_def Let_def st rows_ok_def split: if_splits)
      qed
    qed
  next
    case together: False
    let ?p = "case path_to_node_map s dirpath of Some n \<Rightarrow> n | None \<Rightarrow> 0"
    show ?thesis
    proof (cases "tv_insert ?p f ?v tgs (tree s)")
      case (Inl x)
      with assms False together show ?thesis
        by (auto simp: add_file_def Let_def st)
    next
      case (Inr q)
      obtain n tv where q: "q = (n, tv)" by (cases q)
      have "list_all (row_ok h cfg ses) (tv_rows tv)"
        using tv_insert_rows_ok [OF Inr [unfolded q], of "row_ok h cfg ses"] assms(2) new
        by (simp add: rows_ok_def)
      with assms False together Inr q show ?thesis
        by (auto simp: add_file_def Let_def st rows_ok_def split: if_splits)
    qed
  qed
qed

lemma keeps_rows_ok: "keeps h cfg ses (rows_ok h cfg ses)"
  unfolding keeps_def
proof (intro conjI allI impI)
  fix parent dirpath d s n tv
  assume ok: "rows_ok h cfg ses s"
    and i: "tv_insert parent d folder_vals [] (tree s) = Inr (n, tv)"
  have "list_all (row_ok h cfg ses) (tv_rows tv)"
    using tv_insert_rows_ok [OF i, of "row_ok h cfg ses"] ok
    by (simp add: rows_ok_def row_ok_folder)
  then show "rows_ok h cfg ses
      (s\<lparr>tree := tv,
         path_to_node_map := (path_to_node_map s)(join2 dirpath d \<mapsto> n),
         tree_item_paths := (tree_item_paths s)(n \<mapsto> join2 dirpath d)\<rparr>)"
    using ok by (simp add: rows_ok_def)
next
  fix dirpath f s e s'
  assume "rows_ok h cfg ses s" and "add_file h cfg ses dirpath f s = (e, s')"
  then show "rows_ok h cfg ses s'" by (rule add_file_rows_ok [rotated])
qed

lemma walk_rows_ok:
  "walk h cfg ses dirpath d s = (e, s') \<Longrightarrow> rows_ok h cfg ses s \<Longrightarrow> rows_ok h cfg ses s'"
  by (rule walk_keeps(1) [OF _ keeps_rows_ok])

text \<open>The walk never looks below a folder whose name does not pass.\<close>

lemma filter_keep_prune:
  "map fst (prune_subdirs keep subs) = filter keep (map fst subs)"
  by (induction subs) auto

lemma filter_keep_idem:
  "filter keep (map fst (prune_subdirs keep subs)) = filter keep (map fst subs)"
  by (simp add: filter_keep_prune)

lemma walk_prune:
  "walk h cfg ses dirpath (prune (keep_folder h cfg ses) d) s = walk h cfg ses dirpath d s"
  "walk_subdirs h cfg ses dirpath (prune_subdirs (keep_folder h cfg ses) subs) s =
     walk_subdirs h cfg ses dirpath subs s"
proof (induction h cfg ses dirpath d s and h cfg ses dirpath subs s rule: walk_walk_subdirs.induct)
  case (1 h cfg ses dirpath s)
  then show ?case by simp
next
  case (2 h cfg ses dirpath subs fnames s)
  then show ?case
    by (simp add: filter_keep_idem split: prod.splits option.splits)
next
  case (3 h cfg ses dirpath s)
  then show ?case by simp
next
  case (4 h cfg ses dirpath d sub rest s)
  then show ?case
    by (simp split: prod.splits option.splits)
qed

lemma folders_kept_prune:
  "folders_kept keep (prune keep d)"
  "subdirs_kept keep (prune_subdirs keep subs)"
  by (induction keep d and keep subs rule: prune_prune_subdirs.induct) simp_all

lemma scan_tree_prune:
  "scan_file_tree h cfg (Some (prune (keep_folder h cfg (scan_session h cfg)) d)) s =
   scan_file_tree h cfg (Some d) s"
  by (simp add: scan_file_tree_def scan_session_def walk_prune Let_def
      split: sum.splits prod.splits)

text \<open>
  With the ignored files shown in the main tree (or hidden), no insertion fails.
\<close>

lemma add_file_together:
  assumes "\<not> show_ignored_separately cfg"
  shows "add_file h cfg ses dirpath f s =
     (if hide_ignored cfg \<and> is_ignored h cfg ses f then (None, s)
      else case tv_insert (case path_to_node_map s dirpath of Some n \<Rightarrow> n | None \<Rightarrow> 0) f
                  (fst (status_and_tags h cfg ses f), getsize_kb h (join2 dirpath f),
                   snd (splitext f))
                  (snd (status_and_tags h cfg ses f)) (tree s) of
             Inl e \<Rightarrow> (Some e, s)
           | Inr (node_id, tv) \<Rightarrow>
               (None,
                s\<lparr>tree := tv,
                  tree_item_paths := (tree_item_paths s)(node_id \<mapsto> join2 dirpath f),
                  all_tree_items_master_list :=
                    (if is_ignored h cfg ses f then all_tree_items_master_list s
                     else all_tree_items_master_list s @ [node_id])\<rparr>))"
  using assms
  by (auto simp: add_file_def Let_def split: prod.splits sum.splits)

lemma map_lookup_exists:
  "map_in_tree s \<Longrightarrow>
   (case path_to_node_map s dirpath of Some n \<Rightarrow> n | None \<Rightarrow> 0) = 0 \<or>
   tv_exists (tree s) (case path_to_node_map s dirpath of Some n \<Rightarrow> n | None \<Rightarrow> 0)"
  by (auto simp: map_in_tree_def split: option.splits)

lemma tv_insert_succeeds:
  "parent = 0 \<or> tv_exists tv parent \<Longrightarrow> \<exists>n tv'. tv_insert parent t v g tv = Inr (n, tv')"
  by (auto simp: tv_insert_def Let_def)

lemma keeps_map_in_tree:
  assumes "\<not> show_ignored_separately cfg"
  shows "keeps h cfg ses map_in_tree"
  unfolding keeps_def
proof (intro conjI allI impI)
  fix parent dirpath d s n tv
  assume m: "map_in_tree s" and i: "tv_insert parent d folder_vals [] (tree s) = Inr (n, tv)"
  show "map_in_tree
      (s\<lparr>tree := tv,
         path_to_node_map := (path_to_node_map s)(join2 dirpath d \<mapsto> n),
         tree_item_paths := (tree_item_paths s)(n \<mapsto> join2 dirpath d)\<rparr>)"
    using m by (auto simp: map_in_tree_def tv_insert_exists [OF i])
next
  fix dirpath f s e s'
  assume m: "map_in_tree s" and a: "add_file h cfg ses dirpath f s = (e, s')"
  show "map_in_tree s'"
  proof (cases "hide_ignored cfg \<and> is_ignored h cfg ses f")
    case True
    with a m show ?thesis by (simp add: add_file_together [OF assms])
  next
    case False
    let ?p = "case path_to_node_map s dirpath of Some n \<Rightarrow> n | None \<Rightarrow> 0"
    let ?v = "(fst (status_and_tags h cfg ses f), getsize_kb h (join2 dirpath f),
               snd (splitext f))"
    obtain n tv where i: "tv_insert ?p f ?v (snd (status_and_tags h cfg ses f)) (tree s) =
        Inr (n, tv)"
      using tv_insert_succeeds [OF map_lookup_exists [OF m]] by blast
    from a False i have "path_to_node_map s' = path_to_node_map s" "tree s' = tv"
      by (auto simp: add_file_together [OF assms])
    with m show ?thesis
      by (auto simp: map_in_tree_def tv_insert_exists [OF i])
  qed
qed

lemma add_folders_succeeds:
  "parent = 0 \<or> tv_exists (tree s) parent \<Longrightarrow> fst (add_folders parent dirpath ds s) = None"
proof (induction ds arbitrary: s)
  case Nil
  then show ?case by simp
next
  case (Cons d ds)
  obtain n tv where i: "tv_insert parent d folder_vals [] (tree s) = Inr (n, tv)"
    using tv_insert_succeeds [OF Cons.prems] by blast
  let ?s1 = "s\<lparr>tree := tv,
             path_to_node_map := (path_to_node_map s)(join2 dirpath d \<mapsto> n),
             tree_item_paths := (tree_item_paths s)(n \<mapsto> join2 dirpath d)\<rparr>"
  have "parent = 0 \<or> tv_exists (tree ?s1) parent"
    using Cons.prems by (auto simp: tv_insert_exists [OF i])
  then have "fst (add_folders parent dirpath ds ?s1) = None" by (rule Cons.IH)
  with i show ?case by simp
qed

lemma add_file_succeeds:
  assumes "\<not> show_ignored_separately cfg" and "map_in_tree s"
  shows "fst (add_file h cfg ses dirpath f s) = None"
proof -
  obtain n tv where "tv_insert (case path_to_node_map s dirpath of Some n \<Rightarrow> n | None \<Rightarrow> 0) f
      (fst (status_and_tags h cfg ses f), getsize_kb h (join2 dirpath f), snd (splitext f))
      (snd (status_and_tags h cfg ses f)) (tree s) = Inr (n, tv)"
    using tv_insert_succeeds [OF map_lookup_exists [OF assms(2)]] by blast
  then show ?thesis by (simp add: add_file_together [OF assms(1)])
qed

lemma add_files_succeeds:
  assumes "\<not> show_ignored_separately cfg"
  shows "map_in_tree s \<Longrightarrow> fst (add_files h cfg ses dirpath fs s) = None"
proof (induction fs arbitrary: s)
  case Nil
  then show ?case by simp
next
  case (Cons f fs)
  obtain e1 s1 where a: "add_file h cfg ses dirpath f s = (e1, s1)"
    by (cases "add_file h cfg ses dirpath f s")
  have e1: "e1 = None" using add_file_succeeds [OF assms Cons.prems, of h ses dirpath f] a by simp
  have "map_in_tree s1"
    using keeps_map_in_tree [OF assms, of h ses] Cons.prems a unfolding keeps_def by blast
  then have "fst (add_files h cfg ses dirpath fs s1) = None" by (rule Cons.IH)
  with a e1 show ?case by simp
qed

lemma visit_succeeds:
  assumes "\<not> show_ignored_separately cfg" and "map_in_tree s"
  shows "fst (visit h cfg ses dirpath ds fs s) = None"
proof -
  let ?p = "case path_to_node_map s dirpath of Some n \<Rightarrow> n | None \<Rightarrow> 0"
  obtain e1 s1 where a: "add_folders ?p dirpath ds s = (e1, s1)"
    by (cases "add_folders ?p dirpath ds s")
  have e1: "e1 = None"
    using add_folders_succeeds [OF map_lookup_exists [OF assms(2)], of dirpath dirpath ds] a
    by simp
  have "map_in_tree s1"
    using a assms(2)
  proof (rule add_folders_invariant [where Q = map_in_tree])
    show "map_in_tree (s\<lparr>tree := tv,
            path_to_node_map := (path_to_node_map s)(join2 dirpath d \<mapsto> n),
            tree_item_paths := (tree_item_paths s)(n \<mapsto> join2 dirpath d)\<rparr>)"
      if "map_in_tree s" "tv_insert ?p d folder_vals [] (tree s) = Inr (n, tv)" for d s n tv
      using keeps_map_in_tree [OF assms(1), of h ses] that unfolding keeps_def by blast
  qed
  then have "fst (add_files h cfg ses dirpath fs s1) = None"
    by (rule add_files_succeeds [OF assms(1)])
  with a e1 show ?thesis by (simp add: visit_def)
qed

lemma walk_succeeds:
  "\<not> show_ignored_separately cfg \<Longrightarrow> map_in_tree s \<Longrightarrow>
     fst (walk h cfg ses dirpath d s) = None"
  "\<not> show_ignored_separately cfg \<Longrightarrow> map_in_tree s \<Longrightarrow>
     fst (walk_subdirs h cfg ses dirpath subs s) = None"
proof (induction h cfg ses dirpath d s and h cfg ses dirpath subs s
    rule: walk_walk_subdirs.induct)
  case (1 h cfg ses dirpath s)
  then show ?case by simp
next
  case (2 h cfg ses dirpath subs fnames s)
  obtain e1 s1 where v: "visit h cfg ses dirpath (filter (keep_folder h cfg ses) (map fst subs))
      fnames s = (e1, s1)"
    by (cases "visit h cfg ses dirpath (filter (keep_folder h cfg ses) (map fst subs)) fnames s")
  have e1: "e1 = None"
    using visit_succeeds [OF "2.prems", of h ses dirpath
        "filter (keep_folder h cfg ses) (map fst subs)" fnames] v by simp
  have m1: "map_in_tree s1"
    using v "2.prems"(2)
  proof (rule visit_invariant [where Q = map_in_tree])
    show "map_in_tree (s\<lparr>tree := tv,
            path_to_node_map := (path_to_node_map s)(join2 dirpath d \<mapsto> n),
            tree_item_paths := (tree_item_paths s)(n \<mapsto> join2 dirpath d)\<rparr>)"
      if "map_in_tree s" "tv_insert parent d folder_vals [] (tree s) = Inr (n, tv)"
      for parent d s n tv
      using keeps_map_in_tree [OF "2.prems"(1), of h ses] that unfolding keeps_def by blast
    show "map_in_tree s'" if "map_in_tree s" "add_file h cfg ses dirpath f s = (e, s')"
      for f s e s'
      using keeps_map_in_tree [OF "2.prems"(1), of h ses] that unfolding keeps_def by blast
  qed
  from "2.IH" [OF v [symmetric] _ "2.prems"(1) m1] v e1 show ?case by simp
next
  case (3 h cfg ses dirpath s)
  then show ?case by simp
next
  case (4 h cfg ses dirpath d sub rest s)
  show ?case
  proof (cases "keep_folder h cfg ses d")
    case False
    with "4.prems" "4.IH"(3) show ?thesis by simp
  next
    case True
    obtain e1 s1 where w: "walk h cfg ses (join2 dirpath d) sub s = (e1, s1)"
      by (cases "walk h cfg ses (join2 dirpath d) sub s")
    have e1: "e1 = None" using "4.IH"(1) [OF True "4.prems"] w by simp
    have m1: "map_in_tree s1"
      by (rule walk_keeps(1) [OF w keeps_map_in_tree [OF "4.prems"(1)] "4.prems"(2)])
    from "4.IH"(2) [OF True w [symmetric] _ "4.prems"(1) m1] True w e1 show ?thesis by simp
  qed
qed

lemma keeps_warnings: "keeps h cfg ses (\<lambda>s. warnings s = w)"
  unfolding keeps_def
  by (auto simp: add_file_def ignored_parent_def Let_def
      split: prod.splits sum.splits option.splits if_splits)

text \<open>Every path recorded by the walk is the path of an entry that it reaches.\<close>

lemma ran_upd_subset: "ran (m(k \<mapsto> v)) \<subseteq> insert v (ran m)"
  by (auto simp: ran_def)

lemma add_folders_paths:
  "add_folders parent dirpath ds s = (e, s') \<Longrightarrow>
   ran (tree_item_paths s') \<subseteq> ran (tree_item_paths s) \<union> join2 dirpath ` set ds"
proof (induction ds arbitrary: s)
  case Nil
  then show ?case by simp
next
  case (Cons d ds)
  show ?case
  proof (cases "tv_insert parent d folder_vals [] (tree s)")
    case (Inl x)
    with Cons.prems show ?thesis by auto
  next
    case (Inr r)
    obtain n tv where r: "r = (n, tv)" by (cases r)
    let ?s1 = "s\<lparr>tree := tv,
               path_to_node_map := (path_to_node_map s)(join2 dirpath d \<mapsto> n),
               tree_item_paths := (tree_item_paths s)(n \<mapsto> join2 dirpath d)\<rparr>"
    from Cons.prems Inr r have "add_folders parent dirpath ds ?s1 = (e, s')" by simp
    then have "ran (tree_item_paths s') \<subseteq> ran (tree_item_paths ?s1) \<union> join2 dirpath ` set ds"
      by (rule Cons.IH)
    then show ?thesis
      using ran_upd_subset [of "tree_item_paths s" n "join2 dirpath d"] by auto
  qed
qed

lemma add_file_item_paths:
  assumes "add_file h cfg ses dirpath f s = (e, s')"
  shows "tree_item_paths s' = tree_item_paths s \<or>
         (\<exists>n. tree_item_paths s' = (tree_item_paths s)(n \<mapsto> join2 dirpath f))"
  using assms
  by (auto simp: add_file_def ignored_parent_def Let_def
      split: prod.splits sum.splits option.splits if_splits)

lemma add_file_paths:
  assumes "add_file h cfg ses dirpath f s = (e, s')"
  shows "ran (tree_item_paths s') \<subseteq> insert (join2 dirpath f) (ran (tree_item_paths s))"
  using add_file_item_paths [OF assms] ran_upd_subset [of "tree_item_paths s" _ "join2 dirpath f"]
  by (elim disjE exE) (simp add: subset_insertI, simp)

lemma add_files_paths:
  "add_files h cfg ses dirpath fs s = (e, s') \<Longrightarrow>
   ran (tree_item_paths s') \<subseteq> ran (tree_item_paths s) \<union> join2 dirpath ` set fs"
proof (induction fs arbitrary: s)
  case Nil
  then show ?case by simp
next
  case (Cons f fs)
  obtain e1 s1 where a: "add_file h cfg ses dirpath f s = (e1, s1)"
    by (cases "add_file h cfg ses dirpath f s")
  note p1 = add_file_paths [OF a]
  show ?case
  proof (cases e1)
    case None
    with Cons.prems a have "add_files h cfg ses dirpath fs s1 = (e, s')" by simp
    then have "ran (tree_item_paths s') \<subseteq> ran (tree_item_paths s1) \<union> join2 dirpath ` set fs"
      by (rule Cons.IH)
    with p1 show ?thesis by auto
  next
    case (Some x)
    with Cons.prems a p1 show ?thesis by auto
  qed
qed

lemma visit_paths:
  assumes "visit h cfg ses dirpath ds fs s = (e, s')"
  shows "ran (tree_item_paths s') \<subseteq>
         ran (tree_item_paths s) \<union> join2 dirpath ` set ds \<union> join2 dirpath ` set fs"
proof -
  let ?p = "case path_to_node_map s dirpath of Some n \<Rightarrow> n | None \<Rightarrow> 0"
  obtain e1 s1 where a: "add_folders ?p dirpath ds s = (e1, s1)"
    by (cases "add_folders ?p dirpath ds s")
  note p1 = add_folders_paths [OF a]
  show ?thesis
  proof (cases e1)
    case None
    with assms a have "add_files h cfg ses dirpath fs s1 = (e, s')"
      by (simp add: visit_def)
    from add_files_paths [OF this] p1 show ?thesis by auto
  next
    case (Some x)
    with assms a p1 show ?thesis by (auto simp: visit_def)
  qed
qed

lemma walk_paths:
  "walk h cfg ses dirpath d s = (e, s') \<Longrightarrow>
   ran (tree_item_paths s') \<subseteq>
     ran (tree_item_paths s) \<union> kept_paths (keep_folder h cfg ses) dirpath d"
  "walk_subdirs h cfg ses dirpath subs s = (e, s') \<Longrightarrow>
   ran (tree_item_paths s') \<subseteq>
     ran (tree_item_paths s) \<union> kept_paths_subdirs (keep_folder h cfg ses) dirpath subs"
proof (induction h cfg ses dirpath d s and h cfg ses dirpath subs s
    arbitrary: e s' and e s' rule: walk_walk_subdirs.induct)
  case (1 h cfg ses dirpath s)
  then show ?case by simp
next
  case (2 h cfg ses dirpath subs fnames s)
  obtain e1 s1 where v: "visit h cfg ses dirpath (filter (keep_folder h cfg ses) (map fst subs))
      fnames s = (e1, s1)"
    by (cases "visit h cfg ses dirpath (filter (keep_folder h cfg ses) (map fst subs)) fnames s")
  note p1 = visit_paths [OF v]
  show ?case
  proof (cases e1)
    case None
    with "2.prems" v have "walk_subdirs h cfg ses dirpath subs s1 = (e, s')" by simp
    from "2.IH" [OF v [symmetric] _ this] None p1 show ?thesis by auto
  next
    case (Some x)
    with "2.prems" v p1 show ?thesis by auto
  qed
next
  case (3 h cfg ses dirpath s)
  then show ?case by simp
next
  case (4 h cfg ses dirpath d sub rest s)
  show ?case
  proof (cases "keep_folder h cfg ses d")
    case False
    with "4.prems" "4.IH"(3) show ?thesis by auto
  next
    case True
    obtain e1 s1 where w: "walk h cfg ses (join2 dirpath d) sub s = (e1, s1)"
      by (cases "walk h cfg ses (join2 dirpath d) sub s")
    note p1 = "4.IH"(1) [OF True w]
    show ?thesis
    proof (cases e1)
      case None
      with "4.prems" True w have "walk_subdirs h cfg ses dirpath rest s1 = (e, s')" by simp
      from "4.IH"(2) [OF True w [symmetric] _ this] None p1 True show ?thesis by auto
    next
      case (Some x)
      with "4.prems" True w p1 show ?thesis by auto
    qed
  qed
qed

lemma tv_rows_clear: "tv_rows (tv_clear tv) = []"
  by (simp add: tv_rows_def tv_clear_def)

text \<open>What the scan does once the root folder is a directory and the texts parse.\<close>

lemma scan_tree_walk:
  assumes "root_folder cfg \<noteq> []"
    and "parse_patterns h cfg = Inr ((folders, files), warn)"
  shows "scan_file_tree h cfg (Some d) s =
     (let s1 = s\<lparr>tree := tv_clear (tree s), ignored_tree := tv_clear (ignored_tree s),
                  tree_item_paths := Map.empty, all_tree_items_master_list := [],
                  warnings := (if warn then warnings s @ [invalid_warning] else warnings s)\<rparr>;
          root_node_id = Suc (serial (tree s))
      in walk h cfg (scan_session h cfg) (root_folder cfg) d
           (s1\<lparr>tree := \<lparr>top_items = [Item root_node_id (basename (root_folder cfg)) folder_vals [] []],
                          serial = root_node_id\<rparr>,
               path_to_node_map := [root_folder cfg \<mapsto> root_node_id],
               tree_item_paths := [root_node_id \<mapsto> root_folder cfg]\<rparr>))"
  using assms
  by (simp add: scan_file_tree_def scan_session_def tv_insert_def tv_clear_def Let_def)

lemma scan_tree_other:
  assumes "root = None \<or> root_folder cfg = [] \<or> (\<exists>e. parse_patterns h cfg = Inl e)"
  shows "snd (scan_file_tree h cfg root s) =
     s\<lparr>tree := tv_clear (tree s), ignored_tree := tv_clear (ignored_tree s),
       tree_item_paths := Map.empty, all_tree_items_master_list := []\<rparr>"
  using assms
  by (auto simp: scan_file_tree_def Let_def split: option.splits)

lemma scan_tree_rows_ok:
  assumes "scan_file_tree h cfg root s = (e, s')"
  shows "rows_ok h cfg (scan_session h cfg) s'"
proof (cases "root = None \<or> root_folder cfg = [] \<or> (\<exists>e. parse_patterns h cfg = Inl e)")
  case True
  from scan_tree_other [OF True, of s] assms show ?thesis
    by (simp add: rows_ok_def tv_rows_clear)
next
  case False
  then obtain d folders files warn where root: "root = Some d" and nonempty: "root_folder cfg \<noteq> []"
    and parse: "parse_patterns h cfg = Inr ((folders, files), warn)"
    by (cases root; cases "parse_patterns h cfg") auto
  show ?thesis
    using assms unfolding root scan_tree_walk [OF nonempty parse] Let_def
    by (rule walk_rows_ok)
       (simp add: rows_ok_def tv_rows_def tv_clear_def row_ok_folder)
qed

lemma scan_tree_succeeds:
  assumes "\<not> show_ignored_separately cfg"
    and "root_folder cfg \<noteq> []"
    and "parse_patterns h cfg = Inr ((folders, files), warn)"
  shows "fst (scan_file_tree h cfg (Some d) s) = None"
  unfolding scan_tree_walk [OF assms(2,3)] Let_def
  by (rule walk_succeeds(1) [OF assms(1)])
     (simp add: map_in_tree_def tv_exists_def)

lemma scan_tree_warnings:
  assumes "root_folder cfg \<noteq> []"
    and "parse_patterns h cfg = Inr ((folders, files), warn)"
  shows "warnings (snd (scan_file_tree h cfg (Some d) s)) =
         (if warn then warnings s @ [invalid_warning] else warnings s)"
proof -
  obtain e s' where p: "scan_file_tree h cfg (Some d) s = (e, s')"
    by (cases "scan_file_tree h cfg (Some d) s")
  show ?thesis
    using p unfolding scan_tree_walk [OF assms] Let_def
    by (simp add: walk_keeps(1) [OF _ keeps_warnings, of _ _ _ _ _ _ _ _
          "if warn then warnings s @ [invalid_warning] else warnings s"])
qed

lemma scan_tree_paths:
  assumes "scan_file_tree h cfg (Some d) s = (e, s')"
  shows "ran (tree_item_paths s') \<subseteq>
     insert (root_folder cfg)
       (kept_paths (keep_folder h cfg (scan_session h cfg)) (root_folder cfg) d)"
proof (cases "root_folder cfg = [] \<or> (\<exists>e. parse_patterns h cfg = Inl e)")
  case True
  then have "Some d = None \<or> root_folder cfg = [] \<or> (\<exists>e. parse_patterns h cfg = Inl e)"
    by simp
  from scan_tree_other [OF this, of s] assms show ?thesis by simp
next
  case False
  then obtain folders files warn where nonempty: "root_folder cfg \<noteq> []"
    and parse: "parse_patterns h cfg = Inr ((folders, files), warn)"
    by (cases "parse_patterns h cfg") auto
  from assms [unfolded scan_tree_walk [OF nonempty parse] Let_def]
  show ?thesis
    by (rule walk_paths(1) [THEN subset_trans]) auto
qed

lemma invalid_parse:
  assumes "(\<exists>e. literal_eval h (folder_ignore_patterns cfg) = Inl e \<and> invalid_patterns e) \<or>
           (\<exists>folders e. literal_eval h (folder_ignore_patterns cfg) = Inr folders \<and>
              literal_eval h (file_ignore_patterns cfg) = Inl e \<and> invalid_patterns e)"
  shows "parse_patterns h cfg = Inr (([], []), True)"
  using assms by (auto simp: parse_patterns_def)

text \<open>The walk does not parse anything.\<close>

lemma add_file_literal_eval:
  "add_file (h\<lparr>literal_eval := l\<rparr>) cfg ses = add_file h cfg ses"
proof -
  have st: "status_and_tags (h\<lparr>literal_eval := l\<rparr>) cfg ses = status_and_tags h cfg ses"
    and ig: "is_ignored (h\<lparr>literal_eval := l\<rparr>) cfg ses = is_ignored h cfg ses"
    by (simp_all add: fun_eq_iff status_and_tags_def is_ignored_def
        is_global_file_ignored_def is_session_file_ignored_def)
  have gs: "getsize_kb (h\<lparr>literal_eval := l\<rparr>) = getsize_kb h" by simp
  show ?thesis
    unfolding fun_eq_iff add_file_def st ig gs by (rule allI refl)+
qed

lemma add_files_literal_eval:
  "add_files (h\<lparr>literal_eval := l\<rparr>) cfg ses dirpath fs s = add_files h cfg ses dirpath fs s"
  by (induction fs arbitrary: s)
     (simp_all add: add_file_literal_eval split: prod.splits option.splits)

lemma visit_literal_eval:
  "visit (h\<lparr>literal_eval := l\<rparr>) cfg ses = visit h cfg ses"
  by (simp add: fun_eq_iff visit_def add_files_literal_eval split: prod.splits option.splits)

lemma keep_folder_literal_eval:
  "keep_folder (h\<lparr>literal_eval := l\<rparr>) cfg ses = keep_folder h cfg ses"
  by (simp add: fun_eq_iff keep_folder_def)

lemma walk_literal_eval:
  "h' = h\<lparr>literal_eval := l\<rparr> \<Longrightarrow> walk h' cfg ses dirpath d s = walk h cfg ses dirpath d s"
  "h' = h\<lparr>literal_eval := l\<rparr> \<Longrightarrow>
     walk_subdirs h' cfg ses dirpath subs s = walk_subdirs h cfg ses dirpath subs s"
  by (induction h' cfg ses dirpath d s and h' cfg ses dirpath subs s
      rule: walk_walk_subdirs.induct)
     (simp_all add: visit_literal_eval keep_folder_literal_eval
        split: prod.splits option.splits)

text \<open>
  With the ignored files in the main tree (or hidden), every file of every directory
  reached has its row once the walk has passed.
\<close>

lemma rows_ins_mono: "set (rows it) \<subseteq> set (rows (ins p new it))"
  by (induction it) (auto split: if_splits)

lemma rows_ins_new:
  "p \<in> set (ids it) \<Longrightarrow> set (rows new) \<subseteq> set (rows (ins p new it))"
  by (induction it) (auto split: if_splits)

lemma tv_insert_grows:
  assumes "tv_insert parent t v g tv = Inr (n, tv')"
  shows "set (tv_rows tv) \<subseteq> set (tv_rows tv')"
    and "(n, t, v, g) \<in> set (tv_rows tv')"
    and "n = Suc (serial tv)" and "serial tv' = Suc (serial tv)"
proof -
  let ?new = "Item (Suc (serial tv)) t v g []"
  show n: "n = Suc (serial tv)" and "serial tv' = Suc (serial tv)"
    using assms by (auto simp: tv_insert_def Let_def split: if_splits)
  show "set (tv_rows tv) \<subseteq> set (tv_rows tv')"
    using assms rows_ins_mono [of _ parent ?new]
    by (fastforce simp: tv_insert_def Let_def tv_rows_def split: if_splits)
  show "(n, t, v, g) \<in> set (tv_rows tv')"
  proof (cases "parent = 0")
    case True
    with assms show ?thesis by (auto simp: tv_insert_def Let_def tv_rows_def)
  next
    case False
    with assms obtain x where x: "x \<in> set (top_items tv)" "parent \<in> set (ids x)"
      and tv': "top_items tv' = map (ins parent ?new) (top_items tv)"
      by (auto simp: tv_insert_def Let_def tv_exists_def split: if_splits)
    from rows_ins_new [OF x(2), of ?new] have "(Suc (serial tv), t, v, g) \<in> set (rows (ins parent ?new x))"
      by auto
    with x(1) show ?thesis unfolding n tv_rows_def tv' by auto
  qed
qed

lemma shown_step:
  assumes sh: "shown h cfg ses A s"
    and i: "tv_insert parent t v g (tree s) = Inr (n, tv)"
    and tr: "tree s' = tv"
    and tp: "tree_item_paths s' = (tree_item_paths s)(n \<mapsto> p)"
    and pm: "\<And>q m. path_to_node_map s' q = Some m \<Longrightarrow> path_to_node_map s q = Some m \<or> m = n"
  shows "shown h cfg ses A s'"
proof -
  note g = tv_insert_grows [OF i]
  from sh have m: "map_in_tree s" and b: "bounded s" and r: "\<forall>e \<in> A. has_row h cfg ses s e"
    by (simp_all add: shown_def)
  have m': "map_in_tree s'"
    unfolding map_in_tree_def tr
  proof (intro allI impI)
    fix q k assume "path_to_node_map s' q = Some k"
    from pm [OF this] m show "tv_exists tv k"
      by (auto simp: map_in_tree_def tv_insert_exists [OF i])
  qed
  have b': "bounded s'"
    unfolding bounded_def tr tp
  proof
    fix k assume "k \<in> dom ((tree_item_paths s)(n \<mapsto> p))"
    then have "k = n \<or> k \<in> dom (tree_item_paths s)" by auto
    then show "k \<le> serial tv"
    proof
      assume "k = n" with g(3,4) show ?thesis by simp
    next
      assume "k \<in> dom (tree_item_paths s)"
      with b have "k \<le> serial (tree s)" by (simp add: bounded_def)
      with g(4) show ?thesis by simp
    qed
  qed
  have "has_row h cfg ses s' e" if "e \<in> A" for e
  proof -
    obtain dp f where e: "e = (dp, f)" by (cases e)
    from r that e have "(hide_ignored cfg \<and> is_ignored h cfg ses f) \<or>
        (\<exists>k. tree_item_paths s k = Some (join2 dp f) \<and>
             file_row h cfg ses dp f k \<in> set (tv_rows (tree s)))"
      by (auto simp: has_row_def)
    then show ?thesis
    proof
      assume "hide_ignored cfg \<and> is_ignored h cfg ses f"
      then show ?thesis by (simp add: has_row_def e)
    next
      assume "\<exists>k. tree_item_paths s k = Some (join2 dp f) \<and>
             file_row h cfg ses dp f k \<in> set (tv_rows (tree s))"
      then obtain k where k: "tree_item_paths s k = Some (join2 dp f)"
        "file_row h cfg ses dp f k \<in> set (tv_rows (tree s))" by blast
      from k(1) b have "k \<le> serial (tree s)" by (auto simp: bounded_def)
      with g(3) have "k \<noteq> n" by simp
      with k(1) have "tree_item_paths s' k = Some (join2 dp f)" by (simp add: tp)
      moreover from k(2) g(1) have "file_row h cfg ses dp f k \<in> set (tv_rows (tree s'))"
        by (auto simp: tr)
      ultimately show ?thesis by (auto simp: has_row_def e)
    qed
  qed
  with m' b' show ?thesis by (simp add: shown_def)
qed

lemma add_file_shown:
  assumes ns: "\<not> show_ignored_separately cfg"
    and sh: "shown h cfg ses A s"
    and a: "add_file h cfg ses dirpath f s = (e, s')"
  shows "shown h cfg ses (insert (dirpath, f) A) s'"
proof (cases "hide_ignored cfg \<and> is_ignored h cfg ses f")
  case True
  with a have "s' = s" by (simp add: add_file_together [OF ns])
  with sh True show ?thesis by (simp add: shown_def has_row_def)
next
  case False
  let ?p = "case path_to_node_map s dirpath of Some n \<Rightarrow> n | None \<Rightarrow> 0"
  let ?v = "(fst (status_and_tags h cfg ses f), getsize_kb h (join2 dirpath f),
             snd (splitext f))"
  let ?g = "snd (status_and_tags h cfg ses f)"
  from sh have m: "map_in_tree s" by (simp add: shown_def)
  obtain n tv where i: "tv_insert ?p f ?v ?g (tree s) = Inr (n, tv)"
    using tv_insert_succeeds [OF map_lookup_exists [OF m]] by blast
  from a False i have s': "tree s' = tv"
    "tree_item_paths s' = (tree_item_paths s)(n \<mapsto> join2 dirpath f)"
    "path_to_node_map s' = path_to_node_map s"
    by (auto simp: add_file_together [OF ns])
  have old: "shown h cfg ses A s'"
    by (rule shown_step [OF sh i s'(1,2)]) (simp add: s'(3))
  have "has_row h cfg ses s' (dirpath, f)"
    using tv_insert_grows(2) [OF i] s'(1,2)
    by (auto simp: has_row_def file_row_def)
  with old show ?thesis by (simp add: shown_def)
qed

lemma keeps_shown:
  assumes "\<not> show_ignored_separately cfg"
  shows "keeps h cfg ses (shown h cfg ses A)"
  unfolding keeps_def
proof (intro conjI allI impI)
  fix parent dirpath d s n tv
  assume sh: "shown h cfg ses A s"
    and i: "tv_insert parent d folder_vals [] (tree s) = Inr (n, tv)"
  show "shown h cfg ses A
      (s\<lparr>tree := tv,
         path_to_node_map := (path_to_node_map s)(join2 dirpath d \<mapsto> n),
         tree_item_paths := (tree_item_paths s)(n \<mapsto> join2 dirpath d)\<rparr>)"
    by (rule shown_step [OF sh i]) (auto split: if_splits)
next
  fix dirpath f s e s'
  assume "shown h cfg ses A s" and "add_file h cfg ses dirpath f s = (e, s')"
  from add_file_shown [OF assms this] show "shown h cfg ses A s'"
    by (simp add: shown_def)
qed

lemma add_files_shown:
  assumes ns: "\<not> show_ignored_separately cfg"
  shows "shown h cfg ses A s \<Longrightarrow> add_files h cfg ses dirpath fs s = (e, s') \<Longrightarrow>
     shown h cfg ses (A \<union> Pair dirpath ` set fs) s'"
proof (induction fs arbitrary: s A)
  case Nil
  then show ?case by simp
next
  case (Cons f fs)
  obtain e1 s1 where a: "add_file h cfg ses dirpath f s = (e1, s1)"
    by (cases "add_file h cfg ses dirpath f s")
  from Cons.prems(1) have m: "map_in_tree s" by (simp add: shown_def)
  have e1: "e1 = None" using add_file_succeeds [OF ns m, of h ses dirpath f] a by simp
  have sh1: "shown h cfg ses (insert (dirpath, f) A) s1"
    by (rule add_file_shown [OF ns Cons.prems(1) a])
  from Cons.prems(2) a e1 have "add_files h cfg ses dirpath fs s1 = (e, s')" by simp
  from Cons.IH [OF sh1 this] show ?case by simp
qed

lemma visit_shown:
  assumes ns: "\<not> show_ignored_separately cfg"
    and sh: "shown h cfg ses A s"
    and v: "visit h cfg ses dirpath ds fs s = (e, s')"
  shows "shown h cfg ses (A \<union> Pair dirpath ` set fs) s'"
proof -
  let ?p = "case path_to_node_map s dirpath of Some n \<Rightarrow> n | None \<Rightarrow> 0"
  obtain e1 s1 where a: "add_folders ?p dirpath ds s = (e1, s1)"
    by (cases "add_folders ?p dirpath ds s")
  from sh have m: "map_in_tree s" by (simp add: shown_def)
  have e1: "e1 = None"
    using add_folders_succeeds [OF map_lookup_exists [OF m], of dirpath dirpath ds] a by simp
  have sh1: "shown h cfg ses A s1"
    using a sh
  proof (rule add_folders_invariant [where Q = "shown h cfg ses A"])
    show "shown h cfg ses A (s\<lparr>tree := tv,
            path_to_node_map := (path_to_node_map s)(join2 dirpath d \<mapsto> n),
            tree_item_paths := (tree_item_paths s)(n \<mapsto> join2 dirpath d)\<rparr>)"
      if "shown h cfg ses A s" "tv_insert ?p d folder_vals [] (tree s) = Inr (n, tv)" for d s n tv
      using keeps_shown [OF ns, of h ses A] that unfolding keeps_def by blast
  qed
  from v a e1 have "add_files h cfg ses dirpath fs s1 = (e, s')" by (simp add: visit_def)
  from add_files_shown [OF ns sh1 this] show ?thesis .
qed

lemma walk_shown:
  "\<not> show_ignored_separately cfg \<Longrightarrow> shown h cfg ses A s \<Longrightarrow>
     walk h cfg ses dirpath d s = (e, s') \<Longrightarrow>
     shown h cfg ses (A \<union> reached_files (keep_folder h cfg ses) dirpath d) s'"
  "\<not> show_ignored_separately cfg \<Longrightarrow> shown h cfg ses A s \<Longrightarrow>
     walk_subdirs h cfg ses dirpath subs s = (e, s') \<Longrightarrow>
     shown h cfg ses (A \<union> reached_files_subdirs (keep_folder h cfg ses) dirpath subs) s'"
proof (induction h cfg ses dirpath d s and h cfg ses dirpath subs s
    arbitrary: A e s' and A e s' rule: walk_walk_subdirs.induct)
  case (1 h cfg ses dirpath s)
  then show ?case by simp
next
  case (2 h cfg ses dirpath subs fnames s)
  obtain e1 s1 where v: "visit h cfg ses dirpath (filter (keep_folder h cfg ses) (map fst subs))
      fnames s = (e1, s1)"
    by (cases "visit h cfg ses dirpath (filter (keep_folder h cfg ses) (map fst subs)) fnames s")
  from "2.prems"(2) have m: "map_in_tree s" by (simp add: shown_def)
  have e1: "e1 = None"
    using visit_succeeds [OF "2.prems"(1) m, of h ses dirpath
        "filter (keep_folder h cfg ses) (map fst subs)" fnames] v by simp
  have sh1: "shown h cfg ses (A \<union> Pair dirpath ` set fnames) s1"
    by (rule visit_shown [OF "2.prems"(1,2) v])
  from "2.prems"(3) v e1 have w: "walk_subdirs h cfg ses dirpath subs s1 = (e, s')" by simp
  from "2.IH" [OF v [symmetric] _ "2.prems"(1) sh1 w] e1 show ?case
    by (simp add: Un_assoc)
next
  case (3 h cfg ses dirpath s)
  then show ?case by simp
next
  case (4 h cfg ses dirpath d sub rest s)
  show ?case
  proof (cases "keep_folder h cfg ses d")
    case False
    with "4.prems" "4.IH"(3) show ?thesis by simp
  next
    case True
    obtain e1 s1 where w: "walk h cfg ses (join2 dirpath d) sub s = (e1, s1)"
      by (cases "walk h cfg ses (join2 dirpath d) sub s")
    from "4.prems"(2) have m: "map_in_tree s" by (simp add: shown_def)
    have e1: "e1 = None"
      using walk_succeeds(1) [OF "4.prems"(1) m, of h ses "join2 dirpath d" sub] w by simp
    have sh1: "shown h cfg ses
        (A \<union> reached_files (keep_folder h cfg ses) (join2 dirpath d) sub) s1"
      by (rule "4.IH"(1) [OF True "4.prems"(1,2) w])
    from "4.prems"(3) True w e1 have r: "walk_subdirs h cfg ses dirpath rest s1 = (e, s')"
      by simp
    from "4.IH"(2) [OF True w [symmetric] _ "4.prems"(1) sh1 r] e1 True show ?thesis
      by (simp add: Un_assoc)
  qed
qed

text \<open>
  The scan of an existing root, with well-formed patterns and the joint view, gives
  every file of every folder it enters its row.
\<close>

lemma scan_tree_shown:
  assumes ns: "\<not> show_ignored_separately cfg"
    and nonempty: "root_folder cfg \<noteq> []"
    and parse: "parse_patterns h cfg = Inr ((folders, files), warn)"
    and p: "scan_file_tree h cfg (Some d) s = (e, s')"
  shows "shown h cfg (scan_session h cfg)
     (reached_files (keep_folder h cfg (scan_session h cfg)) (root_folder cfg) d) s'"
proof -
  let ?id = "Suc (serial (tree s))"
  let ?s1 = "s\<lparr>tree := tv_clear (tree s), ignored_tree := tv_clear (ignored_tree s),
                tree_item_paths := Map.empty, all_tree_items_master_list := [],
                warnings := (if warn then warnings s @ [invalid_warning] else warnings s)\<rparr>"
  let ?s2 = "?s1\<lparr>tree := \<lparr>top_items = [Item ?id (basename (root_folder cfg)) folder_vals [] []],
                          serial = ?id\<rparr>,
               path_to_node_map := [root_folder cfg \<mapsto> ?id],
               tree_item_paths := [?id \<mapsto> root_folder cfg]\<rparr>"
  have init: "shown h cfg (scan_session h cfg) {} ?s2"
    by (simp add: shown_def map_in_tree_def bounded_def tv_exists_def)
  from p have w: "walk h cfg (scan_session h cfg) (root_folder cfg) d ?s2 = (e, s')"
    unfolding scan_tree_walk [OF nonempty parse] Let_def .
  from walk_shown(1) [OF ns init w] show ?thesis by simp
qed

section \<open>The whole of \<^verbatim>\<open>populate_file_tree\<close>\<close>

text \<open>
  The function in terms of its scan: it is left as the scan is left when the root is no
  directory or the scan raises, and otherwise ends with \<^verbatim>\<open>filter_tree\<close> on the state
  the scan has built.
\<close>

lemma populate_file_tree_scan:
  "populate_file_tree h cfg root s =
     (case root of
        None \<Rightarrow> Some (scan_file_tree h cfg root s)
      | Some d \<Rightarrow>
          if root_folder cfg = [] then Some (scan_file_tree h cfg root s)
          else (case scan_file_tree h cfg root s of
                  (Some e, s2) \<Rightarrow> Some (Some e, s2)
                | (None, s2) \<Rightarrow> filter_tree cfg s2))"
proof (cases root)
  case None
  then show ?thesis by (simp add: populate_file_tree_def scan_file_tree_def Let_def)
next
  case (Some d)
  show ?thesis
  proof (cases "root_folder cfg = []")
    case True
    with Some show ?thesis by (simp add: populate_file_tree_def scan_file_tree_def Let_def)
  next
    case False
    show ?thesis
    proof (cases "parse_patterns h cfg")
      case (Inl e)
      with Some False show ?thesis
        by (simp add: populate_file_tree_def scan_file_tree_def Let_def)
    next
      case (Inr r)
      obtain folders files warn where r: "r = ((folders, files), warn)"
        by (cases r) auto
      from Some False Inr r show ?thesis
        by (simp add: populate_file_tree_def scan_file_tree_def Let_def tv_insert_def
            split: prod.splits option.splits)
    qed
  qed
qed

lemma populate_raised:
  assumes "fst (scan_file_tree h cfg root s) = Some e"
  shows "populate_file_tree h cfg root s = Some (scan_file_tree h cfg root s)"
  using assms unfolding populate_file_tree_scan
  by (cases "scan_file_tree h cfg root s") (auto split: option.splits)

lemma populate_filtered:
  assumes "root_folder cfg \<noteq> []" and "scan_file_tree h cfg (Some d) s = (None, s2)"
  shows "populate_file_tree h cfg (Some d) s = filter_tree cfg s2"
  using assms unfolding populate_file_tree_scan
  by simp

lemma populate_prune:
  "populate_file_tree h cfg (Some (prune (keep_folder h cfg (scan_session h cfg)) d)) s =
   populate_file_tree h cfg (Some d) s"
  unfolding populate_file_tree_scan by (simp add: scan_tree_prune)

text \<open>
  \<^verbatim>\<open>filter_tree\<close> on a state whose first included item lies in the root folder itself
  and passes the search text: the rows of the main tree are deleted and the item, being
  one of them, is not found. With no included item the rows are deleted and the
  function returns.
\<close>

lemma show_parents_at_root: "show_parents root root s = Some (None, s)"
  by (subst show_parents.simps) simp

lemma tv_item_cleared: "tv_item (tv_clear tv) n = Inl (TclError n)"
  by (simp add: tv_item_def tv_clear_def tv_rows_def)

lemma filter_tree_at_root:
  assumes "all_tree_items_master_list s = n # rest"
    and "tree_item_paths s n = Some p"
    and "str_in (lower (filter_var cfg)) (lower p)"
    and "dirname (lower p) = root_folder cfg"
  shows "filter_tree cfg s = Some (Some (TclError n), s\<lparr>tree := tv_clear (tree s)\<rparr>)"
  unfolding filter_tree_def Let_def
  by (simp add: assms filter_item_def show_parents_at_root tv_item_cleared Let_def
      del: str_in.simps)

lemma filter_tree_no_items:
  assumes "all_tree_items_master_list s = []"
  shows "filter_tree cfg s = Some (None, s\<lparr>tree := tv_clear (tree s)\<rparr>)"
  unfolding filter_tree_def Let_def by (simp add: assms)

text \<open>
  \<^verbatim>\<open>filter_tree\<close> in general. The climb of lines 397 to 401 returns without an
  exception when it returns, and adds rows of folders only, with new identifiers. So
  whatever \<^verbatim>\<open>filter_tree\<close> does, when it is over the main tree holds rows of folders
  only; and when the master list is not empty, its first item is no longer in the tree
  and the function raises \<^verbatim>\<open>TclError\<close> for it (line 394 or line 403).
\<close>

lemma tv_insert_top:
  "tv_insert 0 t v g tv =
     Inr (Suc (serial tv), \<lparr>top_items = top_items tv @ [Item (Suc (serial tv)) t v g []],
                             serial = Suc (serial tv)\<rparr>)"
  by (simp add: tv_insert_def)

lemma show_parents_result:
  assumes "show_parents root parent_path s = Some r"
  shows "fst r = None \<and>
         (folder_rows (tree s) \<longrightarrow> folder_rows (tree (snd r))) \<and>
         (ids_above k (tree s) \<longrightarrow> ids_above k (tree (snd r))) \<and>
         ignored_tree (snd r) = ignored_tree s \<and>
         all_tree_items_master_list (snd r) = all_tree_items_master_list s \<and>
         warnings (snd r) = warnings s"
  using assms
proof (induction rule: show_parents.raw_induct [rotated 1, consumes 1, case_names step])
  case (step show_parents' root parent_path s r)
  show ?case
  proof (cases "parent_path \<noteq> [] \<and> parent_path \<noteq> root")
    case False
    with step(2) show ?thesis by auto
  next
    case True
    show ?thesis
    proof (cases "parent_path \<notin> ran (tree_item_paths s)")
      case False
      with True step(2) have "show_parents' root (dirname parent_path) s = Some r" by simp
      from step(1) [OF this] show ?thesis .
    next
      case new: True
      let ?tv = "\<lparr>top_items = top_items (tree s) @
                    [Item (Suc (serial (tree s))) (basename parent_path) folder_vals [] []],
                  serial = Suc (serial (tree s))\<rparr>"
      let ?s1 = "s\<lparr>tree := ?tv,
                   tree_item_paths := (tree_item_paths s)(Suc (serial (tree s)) \<mapsto> parent_path)\<rparr>"
      from True new step(2) have "show_parents' root (dirname parent_path) ?s1 = Some r"
        by (simp add: tv_insert_top)
      note ih = step(1) [OF this]
      have f: "folder_rows (tree s) \<longrightarrow> folder_rows (tree ?s1)"
        by (simp add: folder_rows_def tv_rows_def folder_vals_def)
      have a: "ids_above k (tree s) \<longrightarrow> ids_above k (tree ?s1)"
        by (simp add: ids_above_def tv_rows_def)
      from ih f a show ?thesis by simp
    qed
  qed
qed

lemma tv_item_absent:
  assumes "ids_above k tv" and "n \<le> k"
  shows "tv_item tv n = Inl (TclError n)"
proof -
  from assms have "n \<notin> fst ` set (tv_rows tv)"
    by (auto simp: ids_above_def list_all_iff)
  then have "map_of (tv_rows tv) n = None" by (simp add: map_of_eq_None_iff)
  then show ?thesis by (simp add: tv_item_def)
qed

lemma filter_item_frame:
  assumes "filter_item cfg search_text n s = Some r"
  shows "(folder_rows (tree s) \<longrightarrow> folder_rows (tree (snd r))) \<and>
         ignored_tree (snd r) = ignored_tree s \<and>
         all_tree_items_master_list (snd r) = all_tree_items_master_list s \<and>
         warnings (snd r) = warnings s"
proof (cases "tree_item_paths s n")
  case None
  with assms show ?thesis by (auto simp: filter_item_def)
next
  case (Some p)
  let ?go = "show_parents (root_folder cfg) (dirname (lower p)) s"
  show ?thesis
  proof (cases ?go)
    case None
    with assms Some show ?thesis
      by (auto simp: filter_item_def Let_def split: if_splits sum.splits bool.splits)
  next
    case go: (Some r1)
    note f = show_parents_result [OF go, of 0]
    from assms Some go f show ?thesis
      by (cases r1)
        (auto simp: filter_item_def Let_def split: if_splits sum.splits bool.splits option.splits)
  qed
qed

lemma filter_item_raises:
  assumes "filter_item cfg search_text n s = Some r"
    and "ids_above k (tree s)" and "n \<le> k" and "tree_item_paths s n = Some p"
  shows "fst r = Some (TclError n)"
proof -
  note absent = tv_item_absent [OF assms(2,3)]
  let ?go = "show_parents (root_folder cfg) (dirname (lower p)) s"
  show ?thesis
  proof (cases "str_in search_text (lower p)")
    case False
    with assms(1,4) absent show ?thesis by (auto simp: filter_item_def Let_def)
  next
    case True
    show ?thesis
    proof (cases ?go)
      case None
      with assms(1,4) True show ?thesis by (auto simp: filter_item_def Let_def)
    next
      case (Some r1)
      obtain e1 s1 where r1: "r1 = (e1, s1)" by (cases r1)
      from show_parents_result [OF Some, of k] assms(2) r1
      have e1: "e1 = None" and "ids_above k (tree s1)" by simp_all
      then have "tv_item (tree s1) n = Inl (TclError n)"
        using assms(3) by (simp add: tv_item_absent)
      with assms(1,4) True Some r1 e1 show ?thesis by (auto simp: filter_item_def Let_def)
    qed
  qed
qed

lemma filter_loop_frame:
  assumes "filter_loop cfg search_text ns s = Some r"
  shows "(folder_rows (tree s) \<longrightarrow> folder_rows (tree (snd r))) \<and>
         ignored_tree (snd r) = ignored_tree s \<and>
         all_tree_items_master_list (snd r) = all_tree_items_master_list s \<and>
         warnings (snd r) = warnings s"
  using assms
proof (induction ns arbitrary: s)
  case Nil
  then show ?case by auto
next
  case (Cons n ns)
  show ?case
  proof (cases "filter_item cfg search_text n s")
    case None
    with Cons.prems show ?thesis by simp
  next
    case (Some r1)
    obtain e1 s1 where r1: "r1 = (e1, s1)" by (cases r1)
    note f = filter_item_frame [OF Some]
    show ?thesis
    proof (cases e1)
      case None
      with Cons.prems Some r1 have "filter_loop cfg search_text ns s1 = Some r" by simp
      from Cons.IH [OF this] f r1 show ?thesis by simp
    next
      case (Some e)
      with Cons.prems \<open>filter_item cfg search_text n s = Some r1\<close> r1 f show ?thesis by auto
    qed
  qed
qed

lemma filter_tree_result:
  assumes "filter_tree cfg s = Some r"
  shows "folder_rows (tree (snd r)) \<and>
         ignored_tree (snd r) = ignored_tree s \<and>
         all_tree_items_master_list (snd r) = all_tree_items_master_list s \<and>
         warnings (snd r) = warnings s \<and>
         (all_tree_items_master_list s = [] \<longrightarrow> fst r = None) \<and>
         (master_known s \<longrightarrow> all_tree_items_master_list s \<noteq> [] \<longrightarrow>
            fst r = Some (TclError (hd (all_tree_items_master_list s))))"
proof -
  let ?s1 = "s\<lparr>tree := tv_clear (tree s)\<rparr>"
  from assms have l: "filter_loop cfg (lower (filter_var cfg)) (all_tree_items_master_list s) ?s1 =
      Some r"
    by (simp add: filter_tree_def Let_def)
  have c: "folder_rows (tree ?s1)" by (simp add: folder_rows_def tv_rows_clear)
  note f = filter_loop_frame [OF l]
  have e: "fst r = None" if "all_tree_items_master_list s = []"
    using l that by auto
  have x: "fst r = Some (TclError (hd (all_tree_items_master_list s)))"
    if k: "master_known s" and ne: "all_tree_items_master_list s \<noteq> []"
  proof -
    from ne obtain n rest where m: "all_tree_items_master_list s = n # rest"
      by (cases "all_tree_items_master_list s") auto
    with k obtain p where n: "n \<le> serial (tree s)" and p: "tree_item_paths ?s1 n = Some p"
      by (auto simp: master_known_def)
    have a: "ids_above (serial (tree s)) (tree ?s1)"
      by (simp add: ids_above_def tv_rows_clear) (simp add: tv_clear_def)
    show ?thesis
    proof (cases "filter_item cfg (lower (filter_var cfg)) n ?s1")
      case None
      with l m show ?thesis by simp
    next
      case (Some r1)
      from filter_item_raises [OF Some a n p] l m Some show ?thesis
        by (cases r1) auto
    qed
  qed
  from f c e x show ?thesis by simp
qed

text \<open>
  The scan keeps the master list within what the main tree has generated and what
  \<^verbatim>\<open>tree_item_paths\<close> holds.
\<close>

lemma tv_insert_serial:
  assumes "tv_insert parent t v g tv = Inr (n, tv')"
  shows "n = Suc (serial tv) \<and> serial tv' = Suc (serial tv)"
  using assms by (auto simp: tv_insert_def Let_def split: if_splits)

lemma add_file_master_known:
  assumes "master_known s" and "add_file h cfg ses dirpath f s = (e, s')"
  shows "master_known s'"
proof (cases "hide_ignored cfg \<and> is_ignored h cfg ses f \<and> \<not> show_ignored_separately cfg")
  case True
  with assms show ?thesis by (auto simp: add_file_def Let_def)
next
  case False
  show ?thesis
  proof (cases "is_ignored h cfg ses f \<and> show_ignored_separately cfg")
    case apart: True
    show ?thesis
    proof (cases "ignored_parent dirpath s")
      case (Inl x)
      with assms False apart show ?thesis
        by (auto simp: add_file_def Let_def split: prod.splits)
    next
      case (Inr r)
      obtain parent_id s1 where r: "r = (parent_id, s1)" by (cases r)
      from Inr r have s1: "tree s1 = tree s" "tree_item_paths s1 = tree_item_paths s"
        "all_tree_items_master_list s1 = all_tree_items_master_list s"
        by (auto simp: ignored_parent_def split: option.splits sum.splits)
      with assms(1) have k1: "master_known s1" by (simp add: master_known_def)
      show ?thesis
      proof (cases "tv_insert parent_id f
          (fst (status_and_tags h cfg ses f), getsize_kb h (join2 dirpath f), snd (splitext f))
          (snd (status_and_tags h cfg ses f)) (ignored_tree s1)")
        case (Inl x)
        with assms(2) False apart Inr r k1 show ?thesis
          by (auto simp: add_file_def Let_def split: prod.splits)
      next
        case ins: (Inr q)
        obtain node_id tv where q: "q = (node_id, tv)" by (cases q)
        from assms(2) False apart Inr r ins q
        have "s' = s1\<lparr>ignored_tree := tv,
            tree_item_paths := (tree_item_paths s1)(node_id \<mapsto> join2 dirpath f)\<rparr>"
          by (auto simp: add_file_def Let_def split: prod.splits)
        with k1 show ?thesis by (auto simp: master_known_def list_all_iff)
      qed
    qed
  next
    case together: False
    let ?p = "case path_to_node_map s dirpath of Some n \<Rightarrow> n | None \<Rightarrow> 0"
    show ?thesis
    proof (cases "tv_insert ?p f
        (fst (status_and_tags h cfg ses f), getsize_kb h (join2 dirpath f), snd (splitext f))
        (snd (status_and_tags h cfg ses f)) (tree s)")
      case (Inl x)
      with assms False together show ?thesis
        by (auto simp: add_file_def Let_def split: prod.splits)
    next
      case ins: (Inr q)
      obtain node_id tv where q: "q = (node_id, tv)" by (cases q)
      note sr = tv_insert_serial [OF ins [unfolded q]]
      from assms(2) False together ins q
      have "s' = s\<lparr>tree := tv,
          tree_item_paths := (tree_item_paths s)(node_id \<mapsto> join2 dirpath f),
          all_tree_items_master_list :=
            (if is_ignored h cfg ses f then all_tree_items_master_list s
             else all_tree_items_master_list s @ [node_id])\<rparr>"
        by (auto simp: add_file_def Let_def split: prod.splits)
      with assms(1) sr show ?thesis by (auto simp: master_known_def list_all_iff)
    qed
  qed
qed

lemma keeps_master_known: "keeps h cfg ses master_known"
  unfolding keeps_def
proof (intro conjI allI impI)
  fix parent dirpath d s n tv
  assume k: "master_known s" and i: "tv_insert parent d folder_vals [] (tree s) = Inr (n, tv)"
  from tv_insert_serial [OF i] k
  show "master_known
      (s\<lparr>tree := tv,
         path_to_node_map := (path_to_node_map s)(join2 dirpath d \<mapsto> n),
         tree_item_paths := (tree_item_paths s)(n \<mapsto> join2 dirpath d)\<rparr>)"
    by (auto simp: master_known_def list_all_iff)
next
  fix dirpath f s e s'
  assume "master_known s" and "add_file h cfg ses dirpath f s = (e, s')"
  then show "master_known s'" by (rule add_file_master_known)
qed

lemma scan_tree_master_known:
  assumes "scan_file_tree h cfg root s = (e, s')"
  shows "master_known s'"
proof (cases "root = None \<or> root_folder cfg = [] \<or> (\<exists>e. parse_patterns h cfg = Inl e)")
  case True
  from scan_tree_other [OF True, of s] assms show ?thesis
    by (simp add: master_known_def)
next
  case False
  then obtain d folders files warn where root: "root = Some d" and nonempty: "root_folder cfg \<noteq> []"
    and parse: "parse_patterns h cfg = Inr ((folders, files), warn)"
    by (cases root; cases "parse_patterns h cfg") auto
  show ?thesis
    using assms unfolding root scan_tree_walk [OF nonempty parse] Let_def
    by (rule walk_keeps(1) [OF _ keeps_master_known]) (simp add: master_known_def)
qed

text \<open>
  The whole function, when its scan has ended without an exception and it returns: the
  main tree holds rows of folders only, the separate tree and the master list are those
  of the scan, and an exception is raised exactly when the scan has included a file:
  the \<^verbatim>\<open>TclError\<close> for the first included item.
\<close>

lemma populate_file_tree_after_scan:
  assumes "populate_file_tree h cfg root s = Some (e, s')"
    and "scan_file_tree h cfg root s = (None, s2)"
  shows "folder_rows (tree s') \<and>
         ignored_tree s' = ignored_tree s2 \<and>
         all_tree_items_master_list s' = all_tree_items_master_list s2 \<and>
         (all_tree_items_master_list s2 = [] \<longrightarrow> e = None) \<and>
         (all_tree_items_master_list s2 \<noteq> [] \<longrightarrow>
            e = Some (TclError (hd (all_tree_items_master_list s2))))"
proof (cases "root = None \<or> root_folder cfg = []")
  case True
  with assms have "s' = s2" and "e = None"
    by (auto simp: populate_file_tree_scan split: option.splits)
  moreover from scan_tree_other [of root cfg h s] True assms(2)
  have "tv_rows (tree s2) = []" "all_tree_items_master_list s2 = []"
    by (auto simp: tv_rows_clear)
  ultimately show ?thesis by (simp add: folder_rows_def)
next
  case False
  then obtain d where root: "root = Some d" and ne: "root_folder cfg \<noteq> []" by auto
  have f: "filter_tree cfg s2 = Some (e, s')"
    using assms(1) unfolding root populate_filtered [OF ne assms(2) [unfolded root]] .
  from filter_tree_result [OF f] scan_tree_master_known [OF assms(2)]
  show ?thesis by simp
qed

section \<open>The claims about the scan\<close>

text \<open>
  Claim C1. For every rule configuration and every directory under the root,
  \<^verbatim>\<open>populate_file_tree\<close> does what it does on the directory from which each folder
  whose name matches a pattern of the session or of the global folder-ignore list has
  been taken out, at every depth, with all it holds. This holds for the whole function
  (whether it returns, the exception if any, the state it leaves) and for its scan, the
  state in which line 385 is reached or the function is left before: the result (both
  trees, the table of paths, the list of included items, the exception if any) is the
  same, and so is the merge input collected from the main tree, whatever the names,
  extensions or ignore status of what such a folder holds. In the directory so pruned
  no folder has a matching name, and every path that the scan records for a row of
  either tree is the root or the path of an entry that is reached from the root
  through folders with no matching name.
\<close>

theorem ignored_folders_never_visited:
  "(let keep = keep_folder h cfg (scan_session h cfg);
        d' = prune keep d;
        r = scan_file_tree h cfg (Some d) s;
        r' = scan_file_tree h cfg (Some d') s
    in (\<forall>name. keep name \<longleftrightarrow>
          \<not> list_ex (\<lambda>pat. fnmatch h name pat) (session_folder_ignores (scan_session h cfg)) \<and>
          \<not> list_ex (\<lambda>pat. fnmatch h name pat) (global_folder_ignores cfg)) \<and>
       folders_kept keep d' \<and>
       r = r' \<and>
       files_to_process (root_folder cfg) (tree (snd r)) =
         files_to_process (root_folder cfg) (tree (snd r')) \<and>
       ran (tree_item_paths (snd r)) \<subseteq>
         insert (root_folder cfg) (kept_paths keep (root_folder cfg) d) \<and>
       populate_file_tree h cfg (Some d) s = populate_file_tree h cfg (Some d') s)"
proof -
  obtain e s' where p: "scan_file_tree h cfg (Some d) s = (e, s')"
    by (cases "scan_file_tree h cfg (Some d) s")
  show ?thesis
    unfolding Let_def scan_tree_prune populate_prune
    using scan_tree_paths [OF p] p
    by (simp add: folders_kept_prune keep_folder_def)
qed

theorem ignored_folders_never_visited_witness:
  "tv_rows (tree (snd (scan_file_tree sample_host sample_settings (Some sample_dir) sample_ui))) =
     tv_rows (tree (snd (scan_file_tree sample_host sample_settings
        (Some (Dir [] [''a.py'', ''b.pyc''])) sample_ui))) \<and>
   files_to_process (root_folder sample_settings)
     (tree (snd (scan_file_tree sample_host sample_settings (Some sample_dir) sample_ui))) =
   files_to_process (root_folder sample_settings)
     (tree (snd (scan_file_tree sample_host sample_settings
        (Some (Dir [] [''a.py'', ''b.pyc''])) sample_ui))) \<and>
   populate_file_tree sample_host sample_settings (Some sample_dir) sample_ui =
   populate_file_tree sample_host sample_settings (Some (Dir [] [''a.py'', ''b.pyc''])) sample_ui"
proof -
  have k: "\<not> keep_folder sample_host sample_settings
      (scan_session sample_host sample_settings) ''__pycache__''"
    by (simp add: keep_folder_def sample_host_def sample_settings_def)
  have d: "prune (keep_folder sample_host sample_settings
      (scan_session sample_host sample_settings)) sample_dir = Dir [] [''a.py'', ''b.pyc'']"
    using k by (simp add: sample_dir_def)
  from ignored_folders_never_visited [of sample_host sample_settings sample_dir sample_ui]
  show ?thesis
    unfolding Let_def d by simp
qed

text \<open>
  What the scan does with the statuses. At line 385, or when the scan is left before,
  every row of a file in either tree (a row whose type column is not \<^verbatim>\<open>Folder\<close>)
  carries one status, one of the four, and it is the one of the first rule that matches
  the file's name in the order: session file-ignore pattern, global file-ignore
  pattern, no extension of the allow-list, none of these. The tags follow the same
  order. When the root folder exists, the patterns parse and the ignored files are
  shown in the main tree, the scan raises nothing and every file of every folder that
  it enters has such a row there, recorded under the file's path, unless the
  hide-ignored view omits the file (line 357).
\<close>

lemma scan_status_by_first_matching_rule:
  assumes "scan_file_tree h cfg root s = (e, s')"
  shows "(\<forall>(i, name, (status, size_kb, kind), tgs) \<in>
            set (tv_rows (tree s')) \<union> set (tv_rows (ignored_tree s')).
            kind \<noteq> ''Folder'' \<longrightarrow>
            status =
              (if is_session_file_ignored h (scan_session h cfg) name then ''Ignored (Session)''
               else if is_global_file_ignored h cfg name then ''Ignored (Global)''
               else if \<not> is_ext_match (scan_session h cfg) name then ''Ignored (Type)''
               else ''Included'') \<and>
            tgs =
              (if is_session_file_ignored h (scan_session h cfg) name then [''session_ignore'']
               else if is_global_file_ignored h cfg name then [''global_ignore'']
               else if \<not> is_ext_match (scan_session h cfg) name then [''type_ignore'']
               else []) \<and>
            status \<in> {''Included'', ''Ignored (Session)'', ''Ignored (Global)'',
                        ''Ignored (Type)''}) \<and>
         (\<forall>d. root = Some d \<and> root_folder cfg \<noteq> [] \<and> \<not> isl (parse_patterns h cfg) \<and>
              \<not> show_ignored_separately cfg \<longrightarrow>
              e = None \<and>
              (\<forall>x \<in> reached_files (keep_folder h cfg (scan_session h cfg)) (root_folder cfg) d.
                 has_row h cfg (scan_session h cfg) s' x))"
proof (intro conjI allI impI)
  have ok: "rows_ok h cfg (scan_session h cfg) s'"
    using assms by (rule scan_tree_rows_ok)
  show "\<forall>(i, name, (status, size_kb, kind), tgs) \<in>
            set (tv_rows (tree s')) \<union> set (tv_rows (ignored_tree s')).
            kind \<noteq> ''Folder'' \<longrightarrow>
            status =
              (if is_session_file_ignored h (scan_session h cfg) name then ''Ignored (Session)''
               else if is_global_file_ignored h cfg name then ''Ignored (Global)''
               else if \<not> is_ext_match (scan_session h cfg) name then ''Ignored (Type)''
               else ''Included'') \<and>
            tgs =
              (if is_session_file_ignored h (scan_session h cfg) name then [''session_ignore'']
               else if is_global_file_ignored h cfg name then [''global_ignore'']
               else if \<not> is_ext_match (scan_session h cfg) name then [''type_ignore'']
               else []) \<and>
            status \<in> {''Included'', ''Ignored (Session)'', ''Ignored (Global)'',
                        ''Ignored (Type)''}"
  proof (clarify, intro conjI)
    fix i name status size_kb kind tgs
    assume r: "(i, name, (status, size_kb, kind), tgs) \<in>
        set (tv_rows (tree s')) \<union> set (tv_rows (ignored_tree s'))"
      and k: "kind \<noteq> ''Folder''"
    from ok r have "row_ok h cfg (scan_session h cfg) (i, name, (status, size_kb, kind), tgs)"
      by (auto simp: rows_ok_def list_all_iff)
    with k have st: "(status, tgs) = status_and_tags h cfg (scan_session h cfg) name"
      by (simp add: row_ok_def)
    from st show "status =
        (if is_session_file_ignored h (scan_session h cfg) name then ''Ignored (Session)''
         else if is_global_file_ignored h cfg name then ''Ignored (Global)''
         else if \<not> is_ext_match (scan_session h cfg) name then ''Ignored (Type)''
         else ''Included'')"
      by (simp add: status_and_tags_def split: if_splits)
    from st show "tgs =
        (if is_session_file_ignored h (scan_session h cfg) name then [''session_ignore'']
         else if is_global_file_ignored h cfg name then [''global_ignore'']
         else if \<not> is_ext_match (scan_session h cfg) name then [''type_ignore'']
         else [])"
      by (simp add: status_and_tags_def split: if_splits)
    from st show "status \<in> {''Included'', ''Ignored (Session)'', ''Ignored (Global)'',
        ''Ignored (Type)''}"
      by (simp add: status_and_tags_def split: if_splits)
  qed
next
  fix d
  assume a: "root = Some d \<and> root_folder cfg \<noteq> [] \<and> \<not> isl (parse_patterns h cfg) \<and>
      \<not> show_ignored_separately cfg"
  then obtain folders files warn where parse: "parse_patterns h cfg = Inr ((folders, files), warn)"
    by (cases "parse_patterns h cfg") auto
  from a have root: "root = Some d" and ne: "root_folder cfg \<noteq> []"
    and ns: "\<not> show_ignored_separately cfg" by simp_all
  show "e = None"
    using scan_tree_succeeds [OF ns ne parse, of d s] assms root by simp
  show "\<forall>x \<in> reached_files (keep_folder h cfg (scan_session h cfg)) (root_folder cfg) d.
      has_row h cfg (scan_session h cfg) s' x"
    using scan_tree_shown [OF ns ne parse assms [unfolded root]] by (simp add: shown_def)
qed

lemma scan_status_by_first_matching_rule_example:
  "(3, ''b.pyc'', (''Ignored (Type)'', ''0.01'', ''.pyc''), [''type_ignore'']) \<in>
     set (tv_rows (tree (snd (scan_file_tree sample_host sample_settings
       (Some sample_dir) sample_ui)))) \<and>
   ''Ignored (Type)'' =
     (if is_session_file_ignored sample_host (scan_session sample_host sample_settings) ''b.pyc''
      then ''Ignored (Session)''
      else if is_global_file_ignored sample_host sample_settings ''b.pyc'' then ''Ignored (Global)''
      else if \<not> is_ext_match (scan_session sample_host sample_settings) ''b.pyc''
      then ''Ignored (Type)''
      else ''Included'') \<and>
   has_row sample_host sample_settings (scan_session sample_host sample_settings)
     (snd (scan_file_tree sample_host sample_settings (Some sample_dir) sample_ui))
     (''/r/proj'', ''a.py'')"
proof -
  let ?r = "scan_file_tree sample_host sample_settings (Some sample_dir) sample_ui"
  have m0: "(3, ''b.pyc'', (''Ignored (Type)'', ''0.01'', ''.pyc''), [''type_ignore'']) \<in>
     set (tv_rows (tree (snd ?r)))"
    by code_simp
  then have m: "(3, ''b.pyc'', (''Ignored (Type)'', ''0.01'', ''.pyc''), [''type_ignore'']) \<in>
     set (tv_rows (tree (snd ?r))) \<union> set (tv_rows (ignored_tree (snd ?r)))"
    by simp
  have p: "?r = (fst ?r, snd ?r)" by simp
  note c = scan_status_by_first_matching_rule [OF p]
  have one: "''Ignored (Type)'' =
     (if is_session_file_ignored sample_host (scan_session sample_host sample_settings) ''b.pyc''
      then ''Ignored (Session)''
      else if is_global_file_ignored sample_host sample_settings ''b.pyc'' then ''Ignored (Global)''
      else if \<not> is_ext_match (scan_session sample_host sample_settings) ''b.pyc''
      then ''Ignored (Type)''
      else ''Included'')"
    using c [THEN conjunct1, rule_format, OF m] by simp
  have pre: "Some sample_dir = Some sample_dir \<and> root_folder sample_settings \<noteq> [] \<and>
      \<not> isl (parse_patterns sample_host sample_settings) \<and>
      \<not> show_ignored_separately sample_settings"
    by (simp add: sample_settings_def sample_host_def parse_patterns_def
        sample_literal_eval_def)
  have reached: "(''/r/proj'', ''a.py'') \<in>
      reached_files (keep_folder sample_host sample_settings
        (scan_session sample_host sample_settings)) (root_folder sample_settings) sample_dir"
    by (simp add: sample_dir_def sample_settings_def)
  have two: "has_row sample_host sample_settings (scan_session sample_host sample_settings)
     (snd ?r) (''/r/proj'', ''a.py'')"
    using c [THEN conjunct2, rule_format, OF pre, THEN conjunct2, rule_format, OF reached] .
  from m0 one two show ?thesis by (intro conjI)
qed

text \<open>
  Claim C2 fails on the code: a file that the scan meets can be left without any
  status. With the ignored files shown in the separate tree, the scan of the root
  folder \<^verbatim>\<open>/r/proj\<close> holding \<^verbatim>\<open>b.pyc\<close> and \<^verbatim>\<open>a.py\<close> (extension filter \<^verbatim>\<open>.py\<close>) ends
  at \<^verbatim>\<open>b.pyc\<close>: the row of this ignored file is to be inserted in the separate tree
  below item 1, an item of the main tree (lines 371 to 378), and \<^verbatim>\<open>insert\<close> raises
  \<^verbatim>\<open>TclError\<close>. \<^verbatim>\<open>populate_file_tree\<close> is left with the row of the root folder alone:
  neither \<^verbatim>\<open>b.pyc\<close> nor \<^verbatim>\<open>a.py\<close>, which is never reached, has a row in either tree.
  With the ignored files shown in the main tree, the scan gives both files their rows
  and statuses, and then \<^verbatim>\<open>filter_tree\<close> (line 385) deletes every row of the main tree
  (line 390) and raises \<^verbatim>\<open>TclError\<close> at the first included item (line 403), so that no
  file is left with a status either.
\<close>

theorem ignored_file_left_without_status:
  "populate_file_tree sample_host sample_apart (Some (Dir [] [''b.pyc'', ''a.py''])) sample_ui =
     Some (scan_file_tree sample_host sample_apart (Some (Dir [] [''b.pyc'', ''a.py''])) sample_ui) \<and>
   fst (scan_file_tree sample_host sample_apart (Some (Dir [] [''b.pyc'', ''a.py''])) sample_ui) =
     Some (TclError 1) \<and>
   tv_rows (tree (snd (scan_file_tree sample_host sample_apart
     (Some (Dir [] [''b.pyc'', ''a.py''])) sample_ui))) =
     [(1, ''proj'', ('''', '''', ''Folder''), [])] \<and>
   tv_rows (ignored_tree (snd (scan_file_tree sample_host sample_apart
     (Some (Dir [] [''b.pyc'', ''a.py''])) sample_ui))) = [] \<and>
   populate_file_tree sample_host sample_settings (Some (Dir [] [''b.pyc'', ''a.py''])) sample_ui =
     Some (Some (TclError 3),
       (snd (scan_file_tree sample_host sample_settings
          (Some (Dir [] [''b.pyc'', ''a.py''])) sample_ui))
       \<lparr>tree := tv_clear (tree (snd (scan_file_tree sample_host sample_settings
          (Some (Dir [] [''b.pyc'', ''a.py''])) sample_ui)))\<rparr>) \<and>
   tv_rows (tree (snd (scan_file_tree sample_host sample_settings
     (Some (Dir [] [''b.pyc'', ''a.py''])) sample_ui))) =
     [(1, ''proj'', ('''', '''', ''Folder''), []),
      (2, ''b.pyc'', (''Ignored (Type)'', ''0.01'', ''.pyc''), [''type_ignore'']),
      (3, ''a.py'', (''Included'', ''0.01'', ''.py''), [])] \<and>
   tv_rows (tv_clear (tree (snd (scan_file_tree sample_host sample_settings
     (Some (Dir [] [''b.pyc'', ''a.py''])) sample_ui)))) = []"
proof -
  let ?d = "Dir [] [''b.pyc'', ''a.py'']"
  let ?r = "scan_file_tree sample_host sample_apart (Some ?d) sample_ui"
  let ?j = "scan_file_tree sample_host sample_settings (Some ?d) sample_ui"
  have e: "fst ?r = Some (TclError 1)" by code_simp
  have p: "populate_file_tree sample_host sample_apart (Some ?d) sample_ui = Some ?r"
    using e by (rule populate_raised)
  have a: "tv_rows (tree (snd ?r)) = [(1, ''proj'', ('''', '''', ''Folder''), [])]"
    by code_simp
  have b: "tv_rows (ignored_tree (snd ?r)) = []" by code_simp
  have ne: "root_folder sample_settings \<noteq> []" by code_simp
  have "fst ?j = None" by code_simp
  then have sc: "?j = (None, snd ?j)" by (simp add: prod_eq_iff)
  have m: "all_tree_items_master_list (snd ?j) = [3]" by code_simp
  have t: "tree_item_paths (snd ?j) 3 = Some ''/r/proj/a.py''" by code_simp
  have i: "str_in (lower (filter_var sample_settings)) (lower ''/r/proj/a.py'')" by code_simp
  have dn: "dirname (lower ''/r/proj/a.py'') = root_folder sample_settings" by code_simp
  have q: "populate_file_tree sample_host sample_settings (Some ?d) sample_ui =
      Some (Some (TclError 3), (snd ?j)\<lparr>tree := tv_clear (tree (snd ?j))\<rparr>)"
    unfolding populate_filtered [OF ne sc] using m t i dn by (rule filter_tree_at_root)
  have c: "tv_rows (tree (snd ?j)) =
     [(1, ''proj'', ('''', '''', ''Folder''), []),
      (2, ''b.pyc'', (''Ignored (Type)'', ''0.01'', ''.pyc''), [''type_ignore'']),
      (3, ''a.py'', (''Included'', ''0.01'', ''.py''), [])]" by code_simp
  have z: "tv_rows (tv_clear (tree (snd ?j))) = []" by (simp add: tv_clear_def tv_rows_def)
  from p e a b q c z show ?thesis by (intro conjI)
qed

text \<open>
  What the handler of line 322 catches. When the root folder is a directory and
  \<^verbatim>\<open>ast.literal_eval\<close> raises \<^verbatim>\<open>ValueError\<close> or \<^verbatim>\<open>SyntaxError\<close> on the folder text, or
  on the file text after the folder text has parsed, the scan shows the
  \<^verbatim>\<open>Invalid Patterns\<close> warning, works with both session lists empty, and is the very
  scan that two texts parsing to the empty list would give: a folder stays unless a
  global folder pattern matches its name, and the status of a file is decided by the
  global file patterns and the extensions alone. Unless the ignored files are shown in
  the separate tree, the scan reaches line 385 without an exception.
\<close>

lemma caught_patterns_fall_back_to_global:
  assumes "root_folder cfg \<noteq> []"
    and "(\<exists>e. literal_eval h (folder_ignore_patterns cfg) = Inl e \<and> invalid_patterns e) \<or>
         (\<exists>folders e. literal_eval h (folder_ignore_patterns cfg) = Inr folders \<and>
            literal_eval h (file_ignore_patterns cfg) = Inl e \<and> invalid_patterns e)"
  shows "(let r = scan_file_tree h cfg (Some d) s;
              ses = scan_session h cfg
          in warnings (snd r) = warnings s @ [invalid_warning] \<and>
             session_folder_ignores ses = [] \<and>
             session_file_ignores ses = [] \<and>
             r = scan_file_tree (h\<lparr>literal_eval := (\<lambda>t. Inr [])\<rparr>) cfg (Some d)
                   (s\<lparr>warnings := warnings s @ [invalid_warning]\<rparr>) \<and>
             (\<forall>name. keep_folder h cfg ses name \<longleftrightarrow>
                \<not> list_ex (\<lambda>pat. fnmatch h name pat) (global_folder_ignores cfg)) \<and>
             (\<forall>name. fst (status_and_tags h cfg ses name) =
                (if is_global_file_ignored h cfg name then ''Ignored (Global)''
                 else if \<not> is_ext_match ses name then ''Ignored (Type)''
                 else ''Included'')) \<and>
             (show_ignored_separately cfg \<or> fst r = None))"
proof -
  note parse = invalid_parse [OF assms(2)]
  let ?h' = "h\<lparr>literal_eval := (\<lambda>t. Inr [])\<rparr>"
  have parse': "parse_patterns ?h' cfg = Inr (([], []), False)"
    by (simp add: parse_patterns_def)
  have ses: "scan_session h cfg =
      \<lparr>session_folder_ignores = [], session_file_ignores = [],
       extensions = parse_extensions (file_types cfg)\<rparr>"
    "scan_session ?h' cfg = scan_session h cfg"
    by (simp_all add: scan_session_def parse parse')
  have same: "walk ?h' cfg ses' p d' s' = walk h cfg ses' p d' s'" for ses' p d' s'
    by (rule walk_literal_eval(1)) simp
  have eq: "scan_file_tree h cfg (Some d) s =
      scan_file_tree ?h' cfg (Some d) (s\<lparr>warnings := warnings s @ [invalid_warning]\<rparr>)"
    unfolding scan_tree_walk [OF assms(1) parse] scan_tree_walk [OF assms(1) parse'] Let_def ses
    by (simp add: same)
  have w: "warnings (snd (scan_file_tree h cfg (Some d) s)) = warnings s @ [invalid_warning]"
    using scan_tree_warnings [OF assms(1) parse] by simp
  have ok: "show_ignored_separately cfg \<or> fst (scan_file_tree h cfg (Some d) s) = None"
  proof (cases "show_ignored_separately cfg")
    case False
    then show ?thesis using scan_tree_succeeds [OF _ assms(1) parse, of d s] by simp
  qed simp
  show ?thesis
    unfolding Let_def
    using eq w ok
    by (simp add: ses keep_folder_def status_and_tags_def is_session_file_ignored_def)
qed

lemma caught_patterns_fall_back_to_global_example:
  "warnings (snd (scan_file_tree sample_host
      (sample_settings\<lparr>folder_ignore_patterns := ''[oops''\<rparr>) (Some sample_dir) sample_ui)) =
     [invalid_warning] \<and>
   fst (scan_file_tree sample_host
      (sample_settings\<lparr>folder_ignore_patterns := ''[oops''\<rparr>) (Some sample_dir) sample_ui) = None"
proof -
  let ?cfg = "sample_settings\<lparr>folder_ignore_patterns := ''[oops''\<rparr>"
  have r: "root_folder ?cfg \<noteq> []" by (simp add: sample_settings_def)
  have i: "(\<exists>e. literal_eval sample_host (folder_ignore_patterns ?cfg) = Inl e \<and> invalid_patterns e) \<or>
      (\<exists>folders e. literal_eval sample_host (folder_ignore_patterns ?cfg) = Inr folders \<and>
         literal_eval sample_host (file_ignore_patterns ?cfg) = Inl e \<and> invalid_patterns e)"
    by (simp add: sample_host_def sample_literal_eval_def invalid_patterns_def quote_def)
  note c = caught_patterns_fall_back_to_global [OF r i, of sample_dir sample_ui,
      unfolded Let_def]
  have w: "warnings (snd (scan_file_tree sample_host ?cfg (Some sample_dir) sample_ui)) =
      warnings sample_ui @ [invalid_warning]"
    by (rule c [THEN conjunct1])
  have "show_ignored_separately ?cfg \<or>
      fst (scan_file_tree sample_host ?cfg (Some sample_dir) sample_ui) = None"
    by (rule c [THEN conjunct2, THEN conjunct2, THEN conjunct2, THEN conjunct2, THEN conjunct2,
          THEN conjunct2])
  then have n: "fst (scan_file_tree sample_host ?cfg (Some sample_dir) sample_ui) = None"
    by (simp add: sample_settings_def)
  show ?thesis
    unfolding w n by (simp add: sample_ui_def)
qed

text \<open>
  Claim C9 fails on the code. The handler of line 322 names \<^verbatim>\<open>ValueError\<close> and
  \<^verbatim>\<open>SyntaxError\<close> only. For the folder text \<^verbatim>\<open>{[1]}\<close>, \<^verbatim>\<open>ast.literal_eval\<close> raises
  \<^verbatim>\<open>TypeError\<close>, which leaves \<^verbatim>\<open>populate_file_tree\<close> at line 320: no warning is shown,
  nothing is scanned and the trees stay empty. For a text that the handler does catch
  (\<^verbatim>\<open>[oops\<close>), the warning is shown and the scan is made with empty session lists, but
  \<^verbatim>\<open>populate_file_tree\<close> does not complete either: \<^verbatim>\<open>filter_tree\<close> (line 385) raises
  \<^verbatim>\<open>TclError\<close> at the included file.
\<close>

theorem uncaught_literal_eval_error:
  "populate_file_tree sample_host (sample_settings\<lparr>folder_ignore_patterns := ''{[1]}''\<rparr>)
     (Some sample_dir) sample_ui =
     Some (Some (PyExn ''TypeError'' (''unhashable type: '' @ quote @ ''list'' @ quote)),
           sample_ui) \<and>
   warnings sample_ui = [] \<and>
   tv_rows (tree sample_ui) = [] \<and>
   populate_file_tree sample_host (sample_settings\<lparr>folder_ignore_patterns := ''[oops''\<rparr>)
     (Some sample_dir) sample_ui =
     Some (Some (TclError 2),
       (snd (scan_file_tree sample_host (sample_settings\<lparr>folder_ignore_patterns := ''[oops''\<rparr>)
          (Some sample_dir) sample_ui))
       \<lparr>tree := tv_clear (tree (snd (scan_file_tree sample_host
          (sample_settings\<lparr>folder_ignore_patterns := ''[oops''\<rparr>) (Some sample_dir) sample_ui)))\<rparr>) \<and>
   warnings (snd (scan_file_tree sample_host (sample_settings\<lparr>folder_ignore_patterns := ''[oops''\<rparr>)
     (Some sample_dir) sample_ui)) = [invalid_warning]"
proof -
  let ?c = "sample_settings\<lparr>folder_ignore_patterns := ''{[1]}''\<rparr>"
  let ?r = "scan_file_tree sample_host ?c (Some sample_dir) sample_ui"
  let ?o = "sample_settings\<lparr>folder_ignore_patterns := ''[oops''\<rparr>"
  let ?j = "scan_file_tree sample_host ?o (Some sample_dir) sample_ui"
  have r: "?r = (Some (PyExn ''TypeError'' (''unhashable type: '' @ quote @ ''list'' @ quote)),
      sample_ui)"
    by (simp add: scan_file_tree_def parse_patterns_def sample_host_def sample_literal_eval_def
        sample_settings_def invalid_patterns_def sample_ui_def tv_clear_def Let_def)
  then have "fst ?r = Some (PyExn ''TypeError'' (''unhashable type: '' @ quote @ ''list'' @ quote))"
    by simp
  then have "populate_file_tree sample_host ?c (Some sample_dir) sample_ui = Some ?r"
    by (rule populate_raised)
  then have p: "populate_file_tree sample_host ?c (Some sample_dir) sample_ui =
      Some (Some (PyExn ''TypeError'' (''unhashable type: '' @ quote @ ''list'' @ quote)),
            sample_ui)"
    unfolding r .
  have w: "warnings sample_ui = []" by code_simp
  have a: "tv_rows (tree sample_ui) = []" by code_simp
  have ne: "root_folder ?o \<noteq> []" by code_simp
  have "fst ?j = None" by code_simp
  then have sc: "?j = (None, snd ?j)" by (simp add: prod_eq_iff)
  have m: "all_tree_items_master_list (snd ?j) = [2]" by code_simp
  have t: "tree_item_paths (snd ?j) 2 = Some ''/r/proj/a.py''" by code_simp
  have i: "str_in (lower (filter_var ?o)) (lower ''/r/proj/a.py'')" by code_simp
  have dn: "dirname (lower ''/r/proj/a.py'') = root_folder ?o" by code_simp
  have q: "populate_file_tree sample_host ?o (Some sample_dir) sample_ui =
      Some (Some (TclError 2), (snd ?j)\<lparr>tree := tv_clear (tree (snd ?j))\<rparr>)"
    unfolding populate_filtered [OF ne sc] using m t i dn by (rule filter_tree_at_root)
  have v: "warnings (snd ?j) = [invalid_warning]" by code_simp
  from p w a q v show ?thesis by (intro conjI)
qed

section \<open>The selection\<close>

text \<open>
  Claim C3 fails on the code. With the ignored files shown in the separate tree, the
  scan of the root folder \<^verbatim>\<open>/r/proj\<close> holding \<^verbatim>\<open>a.py\<close> and \<^verbatim>\<open>b.pyc\<close> is left by the
  \<^verbatim>\<open>TclError\<close> of line 378 at \<^verbatim>\<open>b.pyc\<close>, so that \<^verbatim>\<open>filter_tree\<close> is not called and
  the main tree keeps the row of the root folder and, below it, the row of \<^verbatim>\<open>a.py\<close>,
  included. The only included row is that of \<^verbatim>\<open>/r/proj/a.py\<close> (item 2, as
  \<^verbatim>\<open>tree_item_paths\<close> records), but the path collected for it is
  \<^verbatim>\<open>/r/proj/proj/a.py\<close>: the walk up the ancestors ends at the row of the root folder,
  whose text is the last component of the root path, and the root path is put in front
  of the parts once more.
\<close>

theorem collected_path_repeats_root_name:
  "populate_file_tree sample_host sample_apart (Some sample_dir) sample_ui =
     Some (scan_file_tree sample_host sample_apart (Some sample_dir) sample_ui) \<and>
   tv_rows (tree (snd (scan_file_tree sample_host sample_apart (Some sample_dir) sample_ui))) =
     [(1, ''proj'', ('''', '''', ''Folder''), []),
      (2, ''a.py'', (''Included'', ''0.01'', ''.py''), [])] \<and>
   tree_item_paths
     (snd (scan_file_tree sample_host sample_apart (Some sample_dir) sample_ui)) 2 =
     Some ''/r/proj/a.py'' \<and>
   files_to_process (root_folder sample_apart)
     (tree (snd (scan_file_tree sample_host sample_apart (Some sample_dir) sample_ui))) =
     [''/r/proj/proj/a.py'']"
proof -
  let ?r = "scan_file_tree sample_host sample_apart (Some sample_dir) sample_ui"
  have "fst ?r = Some (TclError 1)" by code_simp
  then have p: "populate_file_tree sample_host sample_apart (Some sample_dir) sample_ui = Some ?r"
    by (rule populate_raised)
  have a: "tv_rows (tree (snd ?r)) =
     [(1, ''proj'', ('''', '''', ''Folder''), []),
      (2, ''a.py'', (''Included'', ''0.01'', ''.py''), [])]" by code_simp
  have b: "tree_item_paths (snd ?r) 2 = Some ''/r/proj/a.py''" by code_simp
  have c: "files_to_process (root_folder sample_apart) (tree (snd ?r)) = [''/r/proj/proj/a.py'']"
    by code_simp
  from p a b c show ?thesis by (intro conjI)
qed

end
